theory Spec2Isabelle
  imports Main
begin

section \<open>Python values used by the MSR605X track parser\<close>

text \<open>
  A Python \<open>bytes\<close> object is a list of 8-bit characters; a Python \<open>str\<close> is a list of
  Unicode code points. The two are kept apart because \<open>bytes.decode('ascii',
  errors='replace')\<close> produces the code point U+FFFD, which is not a byte.
\<close>

type_synonym bytes = "char list"
type_synonym str = "nat list"

datatype py_exn = ValueError | UnicodeEncodeError

definition ESC :: char where
  "ESC = CHR 0x1B"

definition FS :: char where
  "FS = CHR 0x1C"

definition str_of :: "string \<Rightarrow> str" where
  "str_of s = map of_char s"

subsection \<open>\<open>bytes.find\<close> and slicing\<close>

text \<open>\<open>occurs_at sub s k\<close>: the slice \<open>s[k : k + len(sub)]\<close> equals \<open>sub\<close>.\<close>

definition occurs_at :: "'a list \<Rightarrow> 'a list \<Rightarrow> nat \<Rightarrow> bool" where
  "occurs_at sub s k = (k + length sub \<le> length s \<and> take (length sub) (drop k s) = sub)"

text \<open>
  \<open>find_aux sub xs i\<close> scans the suffix \<open>xs\<close> that starts at index \<open>i\<close> of the whole
  buffer. \<open>bytes_find s sub start\<close> is \<open>s.find(sub, start)\<close> for \<open>start \<ge> 0\<close>; Python's
  result \<open>-1\<close> is \<open>None\<close>.
\<close>

fun find_aux :: "'a list \<Rightarrow> 'a list \<Rightarrow> nat \<Rightarrow> nat option" where
  "find_aux sub [] i = (if sub = [] then Some i else None)"
| "find_aux sub (x # xs) i =
     (if take (length sub) (x # xs) = sub then Some i else find_aux sub xs (Suc i))"

definition bytes_find :: "'a list \<Rightarrow> 'a list \<Rightarrow> nat \<Rightarrow> nat option" where
  "bytes_find s sub start =
     (if length s < start then None else find_aux sub (drop start s) start)"

text \<open>\<open>s[a:b]\<close> for indices \<open>0 \<le> a\<close>, \<open>0 \<le> b\<close> (empty when \<open>b \<le> a\<close>).\<close>

definition py_slice :: "'a list \<Rightarrow> nat \<Rightarrow> nat \<Rightarrow> 'a list" where
  "py_slice s a b = take (b - a) (drop a s)"

text \<open>\<open>bytes([a, b])\<close> raises \<open>ValueError\<close> unless both numbers are in \<open>range(256)\<close>.\<close>

definition py_bytes2 :: "nat \<Rightarrow> nat \<Rightarrow> py_exn + bytes" where
  "py_bytes2 a b = (if a < 256 \<and> b < 256 then Inr [char_of a, char_of b] else Inl ValueError)"

subsection \<open>Text operations\<close>

definition hex_digit :: "nat \<Rightarrow> nat" where
  "hex_digit d = (if d < 10 then 48 + d else 87 + d)"

text \<open>\<open>bytes.hex()\<close>: two lower-case hexadecimal digits for each byte.\<close>

definition bytes_hex :: "bytes \<Rightarrow> str" where
  "bytes_hex bs =
     concat (map (\<lambda>b. [hex_digit (of_char b div 16), hex_digit (of_char b mod 16)]) bs)"

text \<open>\<open>bytes.decode('ascii', errors='replace')\<close>: a byte above 127 becomes U+FFFD.\<close>

definition decode_ascii_replace :: "bytes \<Rightarrow> str" where
  "decode_ascii_replace bs = map (\<lambda>b. if (of_char b :: nat) < 128 then of_char b else 65533) bs"

text \<open>\<open>str.encode('ascii')\<close> raises \<open>UnicodeEncodeError\<close> on a code point above 127.\<close>

definition encode_ascii :: "str \<Rightarrow> py_exn + bytes" where
  "encode_ascii s = (if list_all (\<lambda>c. c < 128) s then Inr (map char_of s) else Inl UnicodeEncodeError)"

text \<open>
  \<open>str.upper()\<close> maps each code point on its own. On ASCII it turns \<open>a..z\<close> into
  \<open>A..Z\<close>; the mapping of the other code points (Python's Unicode tables, one to
  three code points each) is the parameter \<open>U\<close>.
\<close>

definition ascii_upper :: "nat \<Rightarrow> nat" where
  "ascii_upper c = (if 97 \<le> c \<and> c \<le> 122 then c - 32 else c)"

definition str_upper :: "(nat \<Rightarrow> str) \<Rightarrow> str \<Rightarrow> str" where
  "str_upper U s = concat (map (\<lambda>c. if c < 128 then [ascii_upper c] else U c) s)"

text \<open>The code points for which \<open>str.isspace()\<close> holds; \<open>str.strip()\<close> removes them at both ends.\<close>

definition py_isspace :: "nat \<Rightarrow> bool" where
  "py_isspace c =
     ((9 \<le> c \<and> c \<le> 13) \<or> (28 \<le> c \<and> c \<le> 32) \<or> c = 133 \<or> c = 160 \<or> c = 5760
      \<or> (8192 \<le> c \<and> c \<le> 8202) \<or> c = 8232 \<or> c = 8233 \<or> c = 8239 \<or> c = 8287 \<or> c = 12288)"

definition py_strip :: "str \<Rightarrow> str" where
  "py_strip s = rev (dropWhile py_isspace (rev (dropWhile py_isspace s)))"

section \<open>The track parser (\<open>parser.py\<close>)\<close>

datatype DataFormat = ISO | RAW

record TrackData =
  track_number :: nat
  data :: str
  raw_data :: bytes
  is_valid :: bool
  format :: DataFormat
  error_message :: "string option"

text \<open>
  \<open>_clean_track_data\<close>: keep the characters with \<open>ord(c) >= 32\<close> and the tab, remove
  escape characters, strip white space at both ends.
\<close>

definition clean_track_data :: "str \<Rightarrow> nat \<Rightarrow> str" where
  "clean_track_data d track_num =
     (let cleaned = filter (\<lambda>c. 32 \<le> c \<or> c = 9) d;
          cleaned = filter (\<lambda>c. c \<noteq> 27) cleaned
      in py_strip cleaned)"

definition TRACK2_CHARSET :: "nat set" where
  "TRACK2_CHARSET = set (str_of ''0123456789:;<=>?'')"

definition TRACK3_CHARSET :: "nat set" where
  "TRACK3_CHARSET = set (str_of ''0123456789:;<=>?'')"

text \<open>
  \<open>_validate_track_data\<close>. The parser's \<open>_data_format\<close> is the parameter \<open>fmt\<close>. The table
  \<open>TrackSpec\<close> lives in \<open>constants.py\<close>; its entry \<open>max_chars\<close> for each track is the
  parameter \<open>max_chars\<close>. A track number other than 1, 2, 3 has no entry in \<open>specs\<close>.
\<close>

definition validate_track_data :: "DataFormat \<Rightarrow> (nat \<Rightarrow> nat) \<Rightarrow> str \<Rightarrow> nat \<Rightarrow> bool" where
  "validate_track_data fmt max_chars d track_num =
     (if d = [] then False
      else if track_num \<notin> {1, 2, 3} then False
      else if max_chars track_num < length d then False
      else if fmt = ISO then
        (if track_num = 1 then list_all (\<lambda>c. 32 \<le> c \<and> c \<le> 95) d
         else list_all (\<lambda>c. c \<in> (if track_num = 2 then TRACK2_CHARSET else TRACK3_CHARSET)
                            \<or> c \<in> set (str_of ''%?;'')) d)
      else True)"

text \<open>
  The body of the outer \<open>try\<close> of \<open>_extract_track\<close>; the two markers are built before it.
  The inner \<open>try\<close> (decode, clean, validate) calls nothing that raises on these values; its
  handler would build a \<open>TrackData\<close> with empty text.
\<close>

definition extract_track_body ::
  "DataFormat \<Rightarrow> (nat \<Rightarrow> nat) \<Rightarrow> bytes \<Rightarrow> nat \<Rightarrow> bool \<Rightarrow> bytes \<Rightarrow> bytes
     \<Rightarrow> py_exn + TrackData option" where
  "extract_track_body fmt max_chars response track_num raw start_marker end_marker =
     (case bytes_find response start_marker 0 of
        None \<Rightarrow> Inr None
      | Some start_idx \<Rightarrow>
         (let data_start = start_idx + length start_marker;
              end_res =
                (case bytes_find response end_marker data_start of
                   Some e \<Rightarrow> Inr e
                 | None \<Rightarrow>
                    (case py_bytes2 0x1b (track_num + 1) of
                       Inl e \<Rightarrow> Inl e
                     | Inr next_marker \<Rightarrow>
                        (let next_track = bytes_find response next_marker data_start;
                             status_marker = bytes_find response [ESC, CHR ''0''] data_start
                         in case next_track of
                              Some n \<Rightarrow> Inr n
                            | None \<Rightarrow>
                               (case status_marker of
                                  Some m \<Rightarrow> Inr m
                                | None \<Rightarrow> Inr (length response)))))
          in case end_res of
               Inl e \<Rightarrow> Inl e
             | Inr end_idx \<Rightarrow>
                (let raw_bytes = py_slice response data_start end_idx
                 in if raw then
                      Inr (Some \<lparr>track_number = track_num, data = bytes_hex raw_bytes,
                                 raw_data = raw_bytes, is_valid = (0 < length raw_bytes),
                                 format = RAW, error_message = None\<rparr>)
                    else
                      (let decoded = decode_ascii_replace raw_bytes;
                           decoded = clean_track_data decoded track_num;
                           valid = validate_track_data fmt max_chars decoded track_num
                       in Inr (Some \<lparr>track_number = track_num, data = decoded,
                                      raw_data = raw_bytes, is_valid = valid, format = fmt,
                                      error_message =
                                        (if valid then None
                                         else Some ''Invalid characters in track data'')\<rparr>)))))"

text \<open>
  \<open>_extract_track\<close>. \<open>start_marker = bytes([0x1b, track_num])\<close> and \<open>end_marker\<close> are built
  before the \<open>try\<close>, so a \<open>ValueError\<close> of the first leaves the function; the handler
  \<open>except Exception: return None\<close> is around the body only.
\<close>

definition extract_track ::
  "DataFormat \<Rightarrow> (nat \<Rightarrow> nat) \<Rightarrow> bytes \<Rightarrow> nat \<Rightarrow> bool \<Rightarrow> py_exn + TrackData option" where
  "extract_track fmt max_chars response track_num raw =
     (case py_bytes2 0x1b track_num of
        Inl e \<Rightarrow> Inl e
      | Inr start_marker \<Rightarrow>
         (let end_marker = [FS]
          in case extract_track_body fmt max_chars response track_num raw start_marker end_marker of
               Inl e \<Rightarrow> Inr None
             | Inr r \<Rightarrow> Inr r))"

text \<open>
  The loop \<open>for track_num in [1, 2, 3]\<close> of both decoders: an exception of the call
  would leave the loop; a \<open>TrackData\<close> object is always true, \<open>None\<close> is false.
\<close>

fun parse_loop ::
  "(nat \<Rightarrow> py_exn + TrackData option) \<Rightarrow> nat list \<Rightarrow> TrackData list \<Rightarrow> py_exn + TrackData list" where
  "parse_loop f [] tracks = Inr tracks"
| "parse_loop f (n # ns) tracks =
     (case f n of
        Inl e \<Rightarrow> Inl e
      | Inr None \<Rightarrow> parse_loop f ns tracks
      | Inr (Some td) \<Rightarrow> parse_loop f ns (tracks @ [td]))"

definition parse_iso_response ::
  "DataFormat \<Rightarrow> (nat \<Rightarrow> nat) \<Rightarrow> bytes \<Rightarrow> py_exn + TrackData list" where
  "parse_iso_response fmt max_chars response =
     parse_loop (\<lambda>n. extract_track fmt max_chars response n False) [1, 2, 3] []"

definition parse_raw_response ::
  "DataFormat \<Rightarrow> (nat \<Rightarrow> nat) \<Rightarrow> bytes \<Rightarrow> py_exn + TrackData list" where
  "parse_raw_response fmt max_chars response =
     parse_loop (\<lambda>n. extract_track fmt max_chars response n True) [1, 2, 3] []"

text \<open>
  The text of an optional track in \<open>if track: data += ...\<close>: \<open>None\<close> and the empty
  value are both false and add nothing.
\<close>

definition track_or_empty :: "'a list option \<Rightarrow> 'a list" where
  "track_or_empty t = (case t of None \<Rightarrow> [] | Some x \<Rightarrow> x)"

definition build_iso_write_data ::
  "(nat \<Rightarrow> str) \<Rightarrow> str option \<Rightarrow> str option \<Rightarrow> str option \<Rightarrow> py_exn + bytes" where
  "build_iso_write_data U track1 track2 track3 =
     (let d = [ESC, CHR ''s''];
          d = d @ [ESC, CHR 0x01]
      in case (if track1 \<noteq> None \<and> track1 \<noteq> Some []
               then encode_ascii (str_upper U (the track1)) else Inr []) of
           Inl e \<Rightarrow> Inl e
         | Inr b1 \<Rightarrow>
            (let d = d @ b1;
                 d = d @ [FS];
                 d = d @ [ESC, CHR 0x02]
             in case (if track2 \<noteq> None \<and> track2 \<noteq> Some []
                      then encode_ascii (the track2) else Inr []) of
                  Inl e \<Rightarrow> Inl e
                | Inr b2 \<Rightarrow>
                   (let d = d @ b2;
                        d = d @ [FS];
                        d = d @ [ESC, CHR 0x03]
                    in case (if track3 \<noteq> None \<and> track3 \<noteq> Some []
                             then encode_ascii (the track3) else Inr []) of
                         Inl e \<Rightarrow> Inl e
                       | Inr b3 \<Rightarrow>
                          (let d = d @ b3;
                               d = d @ [FS];
                               d = d @ [CHR ''?'', FS]
                           in Inr d))))"

definition build_raw_write_data :: "bytes option \<Rightarrow> bytes option \<Rightarrow> bytes option \<Rightarrow> bytes" where
  "build_raw_write_data track1 track2 track3 =
     (let d = [ESC, CHR ''s''];
          d = d @ [ESC, CHR 0x01];
          d = (if track1 \<noteq> None \<and> track1 \<noteq> Some [] then d @ the track1 else d);
          d = d @ [FS];
          d = d @ [ESC, CHR 0x02];
          d = (if track2 \<noteq> None \<and> track2 \<noteq> Some [] then d @ the track2 else d);
          d = d @ [FS];
          d = d @ [ESC, CHR 0x03];
          d = (if track3 \<noteq> None \<and> track3 \<noteq> Some [] then d @ the track3 else d);
          d = d @ [FS];
          d = d @ [CHR ''?'', FS]
      in d)"

section \<open>The HID transport (\<open>device.py\<close>)\<close>

record DeviceInfo =
  vendor_id :: nat
  product_id :: nat
  serial_number :: string
  manufacturer :: string
  product :: string
  path :: bytes

text \<open>
  What the program does to the outside world, in order: reports handed to
  \<open>hid.device.write\<close>, calls of \<open>read\<close> and \<open>close\<close>, and calls of the status callback.
\<close>

datatype io_event = DevWrite bytes | DevRead | DevClose | Notified bool

datatype hid_handle = Hid

text \<open>
  The object \<open>MSR605XDevice\<close>. The callback is a function from its argument to the message
  of the exception it raises, if it raises one. \<open>io_log\<close> records the events above; the
  lock is not modelled (one thread).
\<close>

record MSR605XDevice =
  device :: "hid_handle option"
  connected :: bool
  device_info :: "DeviceInfo option"
  on_status_change :: "(bool \<Rightarrow> string option) option"
  io_log :: "io_event list"

text \<open>
  The behaviour of the operating system and the device: \<open>close_error\<close> is the message of
  the exception \<open>close\<close> raises, if any; \<open>write_result r\<close> is the byte count \<open>write\<close> returns
  for the report \<open>r\<close> (\<open>None\<close>: it raises); \<open>read_result n\<close> is what the \<open>n\<close>-th \<open>read\<close> of a
  receive returns (\<open>None\<close>: it raises); \<open>expired t n\<close> is the outcome of the \<open>n\<close>-th test
  \<open>time.time() - start_time > timeout_sec\<close> for the timeout \<open>t\<close>.
\<close>

record hid_env =
  close_error :: "string option"
  write_result :: "bytes \<Rightarrow> int option"
  read_result :: "nat \<Rightarrow> bytes option"
  expired :: "nat \<Rightarrow> nat \<Rightarrow> bool"

definition is_connected :: "MSR605XDevice \<Rightarrow> bool" where
  "is_connected s = (connected s \<and> device s \<noteq> None)"

definition log_event :: "io_event \<Rightarrow> MSR605XDevice \<Rightarrow> MSR605XDevice" where
  "log_event e s = s\<lparr>io_log := io_log s @ [e]\<rparr>"

text \<open>\<open>_notify_status_change\<close>: \<open>Inl\<close> is the exception the callback raised.\<close>

definition notify_status_change :: "MSR605XDevice \<Rightarrow> bool \<Rightarrow> string + MSR605XDevice" where
  "notify_status_change s c =
     (case on_status_change s of
        None \<Rightarrow> Inr s
      | Some cb \<Rightarrow>
         (case cb c of
            None \<Rightarrow> Inr (log_event (Notified c) s)
          | Some msg \<Rightarrow> Inl msg))"

definition disconnect :: "hid_env \<Rightarrow> MSR605XDevice \<Rightarrow> (bool \<times> string) \<times> MSR605XDevice" where
  "disconnect env s =
     (if \<not> connected s \<or> device s = None then ((False, ''Not connected''), s)
      else
        (case close_error env of
           Some msg \<Rightarrow> ((False, ''Disconnect failed: '' @ msg), log_event DevClose s)
         | None \<Rightarrow>
            (let s1 = log_event DevClose s;
                 s2 = s1\<lparr>device := None\<rparr>;
                 s3 = s2\<lparr>connected := False\<rparr>;
                 s4 = s3\<lparr>device_info := None\<rparr>
             in case notify_status_change s4 False of
                  Inr s5 \<Rightarrow> ((True, ''Disconnected successfully''), s5)
                | Inl msg \<Rightarrow>
                    ((False, ''Disconnect failed: '' @ msg), log_event (Notified False) s4))))"

text \<open>
  \<open>send_command\<close>. \<open>HID_REPORT_SIZE\<close> is a constant of \<open>constants.py\<close>, here the parameter
  \<open>report_size\<close>.
\<close>

definition send_command ::
  "hid_env \<Rightarrow> nat \<Rightarrow> MSR605XDevice \<Rightarrow> bytes \<Rightarrow> bytes \<Rightarrow> (bool \<times> bytes) \<times> MSR605XDevice" where
  "send_command env report_size s command payload_data =
     (if \<not> is_connected s then ((False, []), s)
      else
        (let payload = command @ payload_data;
             report = CHR 0x00 # payload;
             report = (if length report < report_size
                       then report @ replicate (report_size - length report) (CHR 0x00)
                       else report);
             s1 = log_event (DevWrite report) s
         in case write_result env report of
              None \<Rightarrow> ((False, []), s1)
            | Some bytes_written \<Rightarrow>
                (if bytes_written < 0 then ((False, []), s1) else ((True, []), s1))))"

text \<open>The test after a non-empty read: at least two bytes and a status sentinel or a field separator.\<close>

definition response_complete :: "bytes \<Rightarrow> bool" where
  "response_complete response =
     (2 \<le> length response
      \<and> (bytes_find response [ESC, CHR ''0''] 0 \<noteq> None
         \<or> bytes_find response [ESC, CHR ''1''] 0 \<noteq> None
         \<or> bytes_find response [FS] 0 \<noteq> None))"

text \<open>
  The loop \<open>while True\<close> of \<open>receive_response\<close>, from its \<open>n\<close>-th iteration with the bytes
  received so far. The result is the exception of a \<open>read\<close> or the buffer at the \<open>break\<close>, and
  the number of reads made. The loop ends only if the clock or the device ends it.
\<close>

partial_function (option) receive_loop ::
  "hid_env \<Rightarrow> nat \<Rightarrow> nat \<Rightarrow> bytes \<Rightarrow> ((unit + bytes) \<times> nat) option" where
  "receive_loop env timeout_ms n response =
     (if expired env timeout_ms n then Some (Inr response, n)
      else
        (case read_result env n of
           None \<Rightarrow> Some (Inl (), Suc n)
         | Some d \<Rightarrow>
            (if d \<noteq> [] then
               (let response = response @ d
                in if response_complete response then Some (Inr response, Suc n)
                   else receive_loop env timeout_ms (Suc n) response)
             else receive_loop env timeout_ms (Suc n) response)))"

text \<open>\<open>bytes.rstrip(b'\x00')\<close>.\<close>

definition rstrip_zeros :: "bytes \<Rightarrow> bytes" where
  "rstrip_zeros bs = rev (dropWhile (\<lambda>b. b = CHR 0x00) (rev bs))"

definition log_reads :: "nat \<Rightarrow> MSR605XDevice \<Rightarrow> MSR605XDevice" where
  "log_reads k s = s\<lparr>io_log := io_log s @ replicate k DevRead\<rparr>"

definition receive_response ::
  "hid_env \<Rightarrow> MSR605XDevice \<Rightarrow> nat \<Rightarrow> ((bool \<times> bytes) \<times> MSR605XDevice) option" where
  "receive_response env s timeout_ms =
     (if \<not> is_connected s then Some ((False, []), s)
      else
        (case receive_loop env timeout_ms 0 [] of
           None \<Rightarrow> None
         | Some (Inl e, k) \<Rightarrow> Some ((False, []), log_reads k s)
         | Some (Inr response, k) \<Rightarrow>
            (let response = rstrip_zeros response
             in Some ((0 < length response, response), log_reads k s))))"

section \<open>Specification-side notions\<close>

text \<open>
  \<open>first_occ sub s start e\<close>: \<open>e\<close> is the lowest index at or after \<open>start\<close> where \<open>sub\<close>
  occurs in \<open>s\<close>; \<open>no_occ sub s start\<close>: there is no such index.
\<close>

definition first_occ :: "'a list \<Rightarrow> 'a list \<Rightarrow> nat \<Rightarrow> nat \<Rightarrow> bool" where
  "first_occ sub s start e =
     (start \<le> e \<and> occurs_at sub s e \<and> list_all (\<lambda>j. \<not> occurs_at sub s j) [start..<e])"

definition no_occ :: "'a list \<Rightarrow> 'a list \<Rightarrow> nat \<Rightarrow> bool" where
  "no_occ sub s start = list_all (\<lambda>j. \<not> occurs_at sub s j) [start..<Suc (length s)]"

text \<open>
  Closed forms of what \<open>_extract_track\<close> computes once the start marker is found at
  index \<open>i\<close>: the end index of the segment and the two shapes of the result.
\<close>

definition segment_end_of :: "bytes \<Rightarrow> nat \<Rightarrow> nat \<Rightarrow> nat" where
  "segment_end_of response track_num data_start =
     (case bytes_find response [FS] data_start of
        Some e \<Rightarrow> e
      | None \<Rightarrow>
         (case bytes_find response [ESC, char_of (track_num + 1)] data_start of
            Some n \<Rightarrow> n
          | None \<Rightarrow>
             (case bytes_find response [ESC, CHR ''0''] data_start of
                Some m \<Rightarrow> m
              | None \<Rightarrow> length response)))"

definition text_track :: "DataFormat \<Rightarrow> (nat \<Rightarrow> nat) \<Rightarrow> nat \<Rightarrow> bytes \<Rightarrow> TrackData" where
  "text_track fmt max_chars track_num raw_bytes =
     (let decoded = clean_track_data (decode_ascii_replace raw_bytes) track_num;
          valid = validate_track_data fmt max_chars decoded track_num
      in \<lparr>track_number = track_num, data = decoded, raw_data = raw_bytes, is_valid = valid,
          format = fmt,
          error_message = (if valid then None else Some ''Invalid characters in track data'')\<rparr>)"

definition raw_track :: "nat \<Rightarrow> bytes \<Rightarrow> TrackData" where
  "raw_track track_num raw_bytes =
     \<lparr>track_number = track_num, data = bytes_hex raw_bytes, raw_data = raw_bytes,
      is_valid = (0 < length raw_bytes), format = RAW, error_message = None\<rparr>"

definition opt_list :: "'a option \<Rightarrow> 'a list" where
  "opt_list r = (case r of None \<Rightarrow> [] | Some x \<Rightarrow> [x])"

definition found_track :: "DataFormat \<Rightarrow> (nat \<Rightarrow> nat) \<Rightarrow> bytes \<Rightarrow> bool \<Rightarrow> nat \<Rightarrow> TrackData option" where
  "found_track fmt max_chars response raw track_num =
     (case bytes_find response [ESC, char_of track_num] 0 of
        None \<Rightarrow> None
      | Some i \<Rightarrow>
          Some (let seg = py_slice response (i + 2) (segment_end_of response track_num (i + 2))
                in if raw then raw_track track_num seg
                   else text_track fmt max_chars track_num seg))"

text \<open>Upper-case letters and digits; the characters tracks 2 and 3 may hold.\<close>

definition is_upper_alnum :: "nat \<Rightarrow> bool" where
  "is_upper_alnum c = ((48 \<le> c \<and> c \<le> 57) \<or> (65 \<le> c \<and> c \<le> 90))"

definition track23_allowed :: "nat set" where
  "track23_allowed = set (str_of ''0123456789'') \<union> set (str_of '':;<=>?'') \<union> set (str_of ''%?;'')"

text \<open>
  The wire grammar of a write frame, in the spec's words:
  \<open>ESC 's' (ESC trackNum payload FS)\<times>3 '?' FS\<close>, tracks in the order 1, 2, 3.
\<close>

definition track_field :: "nat \<Rightarrow> bytes \<Rightarrow> bytes" where
  "track_field n payload = [ESC, char_of n] @ payload @ [FS]"

definition write_frame :: "bytes \<Rightarrow> bytes \<Rightarrow> bytes \<Rightarrow> bytes" where
  "write_frame p1 p2 p3 =
     [ESC, CHR ''s''] @ concat (map (\<lambda>(n, p). track_field n p) [(1, p1), (2, p2), (3, p3)])
     @ [CHR ''?'', FS]"

text \<open>
  Payloads that the frame can carry: text of printable ASCII characters that neither starts
  nor ends with a space; bytes without a field separator and without the start marker of a
  later track.
\<close>

definition iso_text_ok :: "str \<Rightarrow> bool" where
  "iso_text_ok t =
     (list_all (\<lambda>c. 32 \<le> c \<and> c < 128) t \<and> (t \<noteq> [] \<longrightarrow> hd t \<noteq> 32 \<and> last t \<noteq> 32))"

definition raw_payload_ok :: "bytes \<Rightarrow> bytes \<Rightarrow> bytes \<Rightarrow> bool" where
  "raw_payload_ok p1 p2 p3 =
     (FS \<notin> set p1 \<and> FS \<notin> set p2 \<and> FS \<notin> set p3
      \<and> no_occ [ESC, CHR 0x02] p1 0 \<and> no_occ [ESC, CHR 0x03] p1 0 \<and> no_occ [ESC, CHR 0x03] p2 0)"

text \<open>
  The bytes of the first \<open>n\<close> reads of a receive, and the condition under which the loop
  goes on after its \<open>i\<close>-th iteration: the timeout test is false, the read returns, and it
  returns nothing or leaves the buffer incomplete.
\<close>

definition reads_upto :: "hid_env \<Rightarrow> nat \<Rightarrow> bytes" where
  "reads_upto env n =
     concat (map (\<lambda>i. case read_result env i of None \<Rightarrow> [] | Some d \<Rightarrow> d) [0..<n])"

definition keeps_polling :: "hid_env \<Rightarrow> nat \<Rightarrow> nat \<Rightarrow> bool" where
  "keeps_polling env timeout_ms i =
     (\<not> expired env timeout_ms i
      \<and> (case read_result env i of
           None \<Rightarrow> False
         | Some d \<Rightarrow> d = [] \<or> \<not> response_complete (reads_upto env (Suc i))))"

text \<open>
  The end of a segment that starts at \<open>start\<close>: the first field separator if there is one,
  otherwise the first start marker of the next track, otherwise the first status marker,
  otherwise the end of the buffer. \<open>is_segment response k seg\<close>: \<open>seg\<close> is the part of
  \<open>response\<close> between the end of the first start marker of track \<open>k\<close> and that end.
\<close>

definition segment_ends :: "bytes \<Rightarrow> nat \<Rightarrow> nat \<Rightarrow> nat \<Rightarrow> bool" where
  "segment_ends response track_num start e =
     (if \<not> no_occ [FS] response start then first_occ [FS] response start e
      else if \<not> no_occ [ESC, char_of (track_num + 1)] response start
        then first_occ [ESC, char_of (track_num + 1)] response start e
      else if \<not> no_occ [ESC, CHR ''0''] response start
        then first_occ [ESC, CHR ''0''] response start e
      else e = length response)"

definition is_segment :: "bytes \<Rightarrow> nat \<Rightarrow> bytes \<Rightarrow> bool" where
  "is_segment response k seg =
     list_ex (\<lambda>i. list_ex (\<lambda>e. first_occ [ESC, char_of k] response 0 i
                                \<and> segment_ends response k (i + 2) e
                                \<and> seg = py_slice response (i + 2) e)
                     [0..<Suc (length response)])
       [0..<Suc (length response)]"

section \<open>Searching: \<open>bytes_find\<close> returns the first occurrence\<close>

lemma occurs_at_Cons_Suc: "occurs_at sub (x # xs) (Suc k) = occurs_at sub xs k"
  by (simp add: occurs_at_def)

lemma occurs_at_0: "occurs_at sub xs 0 = (take (length sub) xs = sub)"
  by (auto simp: occurs_at_def) (metis length_take min_def nat_le_linear)

lemma occurs_at_drop: "occurs_at sub (drop a s) k = (occurs_at sub s (a + k) \<or> (length s < a \<and> sub = [] \<and> k = 0))"
  by (auto simp: occurs_at_def add.commute)

lemma find_aux_Some:
  "find_aux sub xs i = Some e \<Longrightarrow>
     i \<le> e \<and> occurs_at sub xs (e - i) \<and> (\<forall>j < e - i. \<not> occurs_at sub xs j)"
proof (induction xs arbitrary: i)
  case Nil
  then show ?case by (auto simp: occurs_at_def split: if_splits)
next
  case (Cons x xs)
  show ?case
  proof (cases "take (length sub) (x # xs) = sub")
    case True
    with Cons.prems show ?thesis by (simp add: occurs_at_0)
  next
    case False
    with Cons.prems have r: "find_aux sub xs (Suc i) = Some e" by simp
    from Cons.IH[OF r] have ih: "Suc i \<le> e" "occurs_at sub xs (e - Suc i)"
      "\<forall>j < e - Suc i. \<not> occurs_at sub xs j" by auto
    have eq: "e - i = Suc (e - Suc i)" using ih(1) by simp
    have "\<not> occurs_at sub (x # xs) j" if "j < e - i" for j
    proof (cases j)
      case 0
      then show ?thesis using False by (simp add: occurs_at_0)
    next
      case (Suc k)
      then show ?thesis using that ih(3) eq by (simp add: occurs_at_Cons_Suc)
    qed
    then show ?thesis using ih eq by (simp add: occurs_at_Cons_Suc)
  qed
qed

lemma find_aux_None:
  "find_aux sub xs i = None \<Longrightarrow> \<not> occurs_at sub xs j"
proof (induction xs arbitrary: i j)
  case Nil
  then show ?case by (auto simp: occurs_at_def split: if_splits)
next
  case (Cons x xs)
  then show ?case
    by (cases j) (auto simp: occurs_at_0 occurs_at_Cons_Suc split: if_splits)
qed

lemma bytes_find_Some:
  assumes "bytes_find s sub start = Some e"
  shows "first_occ sub s start e"
proof -
  from assms have le: "start \<le> length s" and f: "find_aux sub (drop start s) start = Some e"
    by (auto simp: bytes_find_def split: if_splits)
  from find_aux_Some[OF f] have a: "start \<le> e" "occurs_at sub (drop start s) (e - start)"
    "\<forall>j < e - start. \<not> occurs_at sub (drop start s) j" by auto
  have o: "occurs_at sub s e" using a(1,2) le by (auto simp: occurs_at_drop)
  have "\<not> occurs_at sub s j" if "start \<le> j" "j < e" for j
  proof -
    have "j - start < e - start" using that by arith
    with a(3) have "\<not> occurs_at sub (drop start s) (j - start)" by blast
    then show ?thesis using that by (simp add: occurs_at_drop)
  qed
  then show ?thesis using a(1) o by (auto simp: first_occ_def list_all_iff)
qed

lemma bytes_find_None:
  assumes "bytes_find s sub start = None"
  shows "no_occ sub s start"
proof -
  have "\<not> occurs_at sub s j" if "start \<le> j" for j
  proof (cases "length s < start")
    case True
    then show ?thesis using that by (auto simp: occurs_at_def)
  next
    case False
    with assms have "find_aux sub (drop start s) start = None" by (simp add: bytes_find_def)
    from find_aux_None[OF this, of "j - start"] show ?thesis using that
      by (simp add: occurs_at_drop)
  qed
  then show ?thesis by (auto simp: no_occ_def list_all_iff)
qed

lemma first_occ_unique: "first_occ sub s start e \<Longrightarrow> first_occ sub s start e' \<Longrightarrow> e = e'"
  by (auto simp: first_occ_def list_all_iff) (metis atLeastLessThan_iff linorder_neqE_nat)

lemma first_occ_not_no_occ:
  assumes "first_occ sub s start e"
  shows "\<not> no_occ sub s start"
proof -
  from assms have "start \<le> e" "occurs_at sub s e" by (auto simp: first_occ_def)
  moreover from this have "e < Suc (length s)" by (simp add: occurs_at_def)
  ultimately have "\<exists>j \<in> set [start..<Suc (length s)]. occurs_at sub s j"
    by (intro bexI[of _ e]) auto
  then show ?thesis unfolding no_occ_def list_all_iff by blast
qed

lemma bytes_find_eq_Some: "bytes_find s sub start = Some e \<longleftrightarrow> first_occ sub s start e"
proof
  assume "first_occ sub s start e"
  then show "bytes_find s sub start = Some e"
    by (cases "bytes_find s sub start")
       (auto dest: bytes_find_None bytes_find_Some first_occ_not_no_occ first_occ_unique)
qed (rule bytes_find_Some)

lemma bytes_find_eq_None: "bytes_find s sub start = None \<longleftrightarrow> no_occ sub s start"
  by (cases "bytes_find s sub start")
     (auto dest: bytes_find_None bytes_find_Some first_occ_not_no_occ)

section \<open>What the decoders return\<close>

lemma char_of_eq: "n < 256 \<Longrightarrow> (char_of (n::nat) = c) = (of_char c = n)"
  by (metis of_char_of char_of_char mod_less)

lemma py_bytes2_track: "n < 256 \<Longrightarrow> py_bytes2 0x1b n = Inr [ESC, char_of n]"
  by (simp add: py_bytes2_def ESC_def char_of_eq)

lemma extract_track_absent:
  assumes "track_num < 256" "bytes_find response [ESC, char_of track_num] 0 = None"
  shows "extract_track fmt max_chars response track_num raw = Inr None"
  using assms by (simp add: extract_track_def extract_track_body_def py_bytes2_track)

lemma extract_track_present:
  assumes "track_num < 255" "bytes_find response [ESC, char_of track_num] 0 = Some i"
  shows "extract_track fmt max_chars response track_num raw =
           Inr (Some (let seg = py_slice response (i + 2) (segment_end_of response track_num (i + 2))
                      in if raw then raw_track track_num seg
                         else text_track fmt max_chars track_num seg))"
  using assms
  by (simp add: extract_track_def extract_track_body_def py_bytes2_track segment_end_of_def
      text_track_def raw_track_def Let_def split: option.splits)

lemma extract_track_total:
  "track_num < 256 \<Longrightarrow> \<exists>r. extract_track fmt max_chars response track_num raw = Inr r"
  by (simp add: extract_track_def py_bytes2_track split: sum.splits)

lemma extract_track_raises:
  "256 \<le> track_num \<Longrightarrow> extract_track fmt max_chars response track_num raw = Inl ValueError"
  by (simp add: extract_track_def py_bytes2_def)

lemma parse_loop_Inr:
  assumes "\<And>n. n \<in> set ns \<Longrightarrow> f n = Inr (g n)"
  shows "parse_loop f ns acc = Inr (acc @ concat (map (\<lambda>n. opt_list (g n)) ns))"
  using assms
  by (induction ns arbitrary: acc) (auto simp: opt_list_def split: option.splits)

lemma extract_track_found:
  "track_num < 255 \<Longrightarrow>
   extract_track fmt max_chars response track_num raw =
     Inr (found_track fmt max_chars response raw track_num)"
  by (cases "bytes_find response [ESC, char_of track_num] 0")
     (simp_all add: found_track_def extract_track_absent extract_track_present)

lemma parse_iso_response_eq:
  "parse_iso_response fmt max_chars response =
     Inr (opt_list (found_track fmt max_chars response False 1)
          @ opt_list (found_track fmt max_chars response False 2)
          @ opt_list (found_track fmt max_chars response False 3))"
  unfolding parse_iso_response_def
  by (subst parse_loop_Inr[where g = "found_track fmt max_chars response False"])
     (auto simp: extract_track_found)

lemma parse_raw_response_eq:
  "parse_raw_response fmt max_chars response =
     Inr (opt_list (found_track fmt max_chars response True 1)
          @ opt_list (found_track fmt max_chars response True 2)
          @ opt_list (found_track fmt max_chars response True 3))"
  unfolding parse_raw_response_def
  by (subst parse_loop_Inr[where g = "found_track fmt max_chars response True"])
     (auto simp: extract_track_found)

lemma found_track_number:
  "found_track fmt max_chars response raw n = Some td \<Longrightarrow> track_number td = n"
  by (auto simp: found_track_def text_track_def raw_track_def Let_def split: option.splits if_splits)

lemma opt_list_numbers:
  "map track_number (opt_list (found_track fmt max_chars response raw n)) = [] \<or>
   map track_number (opt_list (found_track fmt max_chars response raw n)) = [n]"
  by (cases "found_track fmt max_chars response raw n")
     (auto simp: opt_list_def dest: found_track_number)

lemma track_numbers_sorted:
  assumes "a = [] \<or> a = [1::nat]" "b = [] \<or> b = [2]" "c = [] \<or> c = [3]"
  shows "sorted_wrt (<) (a @ b @ c) \<and> distinct (a @ b @ c) \<and> set (a @ b @ c) \<subseteq> {1, 2, 3}"
  using assms by auto

section \<open>Properties of the parser and the transport\<close>

subsection \<open>Track numbers of a decoded list\<close>

text \<open>
  C10. Every list returned by \<open>parse_iso_response\<close> or \<open>parse_raw_response\<close> holds at
  most one \<open>TrackData\<close> for each track number, every \<open>track_number\<close> is 1, 2 or 3,
  and the entries are in strictly increasing order of track number.
\<close>

theorem parse_response_track_numbers:
  "(\<exists>tracks. parse_iso_response fmt max_chars response = Inr tracks
      \<and> distinct (map track_number tracks)
      \<and> set (map track_number tracks) \<subseteq> {1, 2, 3}
      \<and> sorted_wrt (<) (map track_number tracks))
   \<and> (\<exists>tracks. parse_raw_response fmt max_chars response = Inr tracks
      \<and> distinct (map track_number tracks)
      \<and> set (map track_number tracks) \<subseteq> {1, 2, 3}
      \<and> sorted_wrt (<) (map track_number tracks))"
proof -
  have "sorted_wrt (<) (map track_number (opt_list (found_track fmt max_chars response raw 1)
          @ opt_list (found_track fmt max_chars response raw 2)
          @ opt_list (found_track fmt max_chars response raw 3)))
      \<and> distinct (map track_number (opt_list (found_track fmt max_chars response raw 1)
          @ opt_list (found_track fmt max_chars response raw 2)
          @ opt_list (found_track fmt max_chars response raw 3)))
      \<and> set (map track_number (opt_list (found_track fmt max_chars response raw 1)
          @ opt_list (found_track fmt max_chars response raw 2)
          @ opt_list (found_track fmt max_chars response raw 3))) \<subseteq> {1, 2, 3}" for raw
    using track_numbers_sorted[OF opt_list_numbers[of fmt max_chars response raw 1]
        opt_list_numbers[of fmt max_chars response raw 2]
        opt_list_numbers[of fmt max_chars response raw 3]]
    by simp
  then show ?thesis
    unfolding parse_iso_response_eq parse_raw_response_eq by blast
qed

subsection \<open>Validation\<close>

text \<open>
  C6. Validation is false for empty text, for every track. In ISO mode, track 1 is invalid
  when the text holds a character above ASCII 95 and valid for non-empty upper-case
  alphanumeric text no longer than the track-1 maximum; tracks 2 and 3 accept exactly the
  digits, the characters \<open>:;<=>?\<close> and the format characters \<open>%?;\<close> (non-empty, within the
  maximum length).
\<close>

theorem validate_track_data_rules:
  "\<not> validate_track_data fmt max_chars [] track_num
   \<and> ((\<exists>c \<in> set d. 95 < c) \<longrightarrow> \<not> validate_track_data ISO max_chars d 1)
   \<and> (d \<noteq> [] \<and> list_all is_upper_alnum d \<and> length d \<le> max_chars 1
        \<longrightarrow> validate_track_data ISO max_chars d 1)
   \<and> (track_num \<in> {2, 3} \<longrightarrow>
        validate_track_data ISO max_chars d track_num =
          (d \<noteq> [] \<and> length d \<le> max_chars track_num \<and> set d \<subseteq> track23_allowed))"
proof (intro conjI impI)
  show "\<not> validate_track_data fmt max_chars [] track_num"
    by (simp add: validate_track_data_def)
  show "\<not> validate_track_data ISO max_chars d 1" if "\<exists>c \<in> set d. 95 < c"
  proof -
    from that obtain c where "c \<in> set d" "95 < c" by blast
    then have "\<not> list_all (\<lambda>c. 32 \<le> c \<and> c \<le> 95) d"
      unfolding list_all_iff by fastforce
    then show ?thesis by (simp add: validate_track_data_def)
  qed
  show "validate_track_data ISO max_chars d 1"
    if "d \<noteq> [] \<and> list_all is_upper_alnum d \<and> length d \<le> max_chars 1"
    using that by (auto simp: validate_track_data_def list_all_iff is_upper_alnum_def)
  show "validate_track_data ISO max_chars d track_num =
          (d \<noteq> [] \<and> length d \<le> max_chars track_num \<and> set d \<subseteq> track23_allowed)"
    if "track_num \<in> {2, 3}"
  proof -
    have "TRACK2_CHARSET \<union> set (str_of ''%?;'') = track23_allowed"
      "TRACK3_CHARSET \<union> set (str_of ''%?;'') = track23_allowed"
      by (auto simp: TRACK2_CHARSET_def TRACK3_CHARSET_def track23_allowed_def str_of_def)
    then have "list_all (\<lambda>c. c \<in> (if track_num = 2 then TRACK2_CHARSET else TRACK3_CHARSET)
                            \<or> c \<in> set (str_of ''%?;'')) d = (set d \<subseteq> track23_allowed)"
      unfolding list_all_iff by (cases "track_num = 2") auto
    then show ?thesis using that
      unfolding validate_track_data_def by auto
  qed
qed

theorem validate_track_data_rules_witness:
  "(\<exists>c \<in> set (str_of ''AbC''). 95 < c)
   \<and> \<not> validate_track_data ISO (\<lambda>n. 79) (str_of ''AbC'') 1
   \<and> validate_track_data ISO (\<lambda>n. 79) (str_of ''CARD01'') 1
   \<and> validate_track_data ISO (\<lambda>n. 79) (str_of '';4111=2512?'') 2
   \<and> \<not> validate_track_data ISO (\<lambda>n. 79) (str_of '';41A1?'') 3"
proof -
  have h1: "\<exists>c \<in> set (str_of ''AbC''). 95 < c" by (simp add: str_of_def)
  have h2: "str_of ''CARD01'' \<noteq> [] \<and> list_all is_upper_alnum (str_of ''CARD01'')
             \<and> length (str_of ''CARD01'') \<le> (\<lambda>n. 79) (1::nat)"
    by (simp add: str_of_def is_upper_alnum_def)
  have h3: "str_of '';4111=2512?'' \<noteq> [] \<and> length (str_of '';4111=2512?'') \<le> (\<lambda>n::nat. 79::nat) 2
             \<and> set (str_of '';4111=2512?'') \<subseteq> track23_allowed"
    by (simp add: str_of_def track23_allowed_def)
  have h4: "\<not> set (str_of '';41A1?'') \<subseteq> track23_allowed"
    by (simp add: str_of_def track23_allowed_def)
  show ?thesis
    using h1 h2 h3 h4
      validate_track_data_rules[of ISO "\<lambda>n. 79" 1 "str_of ''AbC''"]
      validate_track_data_rules[of ISO "\<lambda>n. 79" 1 "str_of ''CARD01''"]
      validate_track_data_rules[of ISO "\<lambda>n. 79" 2 "str_of '';4111=2512?''"]
      validate_track_data_rules[of ISO "\<lambda>n. 79" 3 "str_of '';41A1?''"]
    by blast
qed

subsection \<open>The write frame\<close>

lemma char_of_1: "char_of (Suc 0) = CHR 0x01" "char_of (1::nat) = CHR 0x01"
  by (simp_all add: char_of_eq)

lemma char_of_2: "char_of (2::nat) = CHR 0x02"
  by (simp add: char_of_eq)

lemma char_of_3: "char_of (3::nat) = CHR 0x03"
  by (simp add: char_of_eq)

lemmas char_of_track = char_of_1 char_of_2 char_of_3

lemma build_raw_write_data_frame:
  "build_raw_write_data t1 t2 t3 =
     write_frame (track_or_empty t1) (track_or_empty t2) (track_or_empty t3)"
proof -
  have f: "(if t \<noteq> None \<and> t \<noteq> Some [] then d @ the t else d) = d @ track_or_empty t"
    for t :: "bytes option" and d
    by (cases t) (simp_all add: track_or_empty_def)
  show ?thesis
    unfolding build_raw_write_data_def f Let_def
    by (simp add: write_frame_def track_field_def char_of_track)
qed

lemma encode_ascii_Nil: "encode_ascii [] = Inr []"
  by (simp add: encode_ascii_def)

lemma str_upper_Nil: "str_upper U [] = []"
  by (simp add: str_upper_def)

lemma build_iso_write_data_frame:
  "build_iso_write_data U t1 t2 t3 =
     (case encode_ascii (str_upper U (track_or_empty t1)) of
        Inl e \<Rightarrow> Inl e
      | Inr b1 \<Rightarrow>
         (case encode_ascii (track_or_empty t2) of
            Inl e \<Rightarrow> Inl e
          | Inr b2 \<Rightarrow>
             (case encode_ascii (track_or_empty t3) of
                Inl e \<Rightarrow> Inl e
              | Inr b3 \<Rightarrow> Inr (write_frame b1 b2 b3))))"
proof -
  have f1: "(if t1 \<noteq> None \<and> t1 \<noteq> Some [] then encode_ascii (str_upper U (the t1)) else Inr [])
            = encode_ascii (str_upper U (track_or_empty t1))"
    by (cases t1) (simp_all add: track_or_empty_def encode_ascii_Nil str_upper_Nil)
  have f2: "(if t \<noteq> None \<and> t \<noteq> Some [] then encode_ascii (the t) else Inr [])
            = encode_ascii (track_or_empty t)" for t
    by (cases t) (simp_all add: track_or_empty_def encode_ascii_Nil)
  show ?thesis
    unfolding build_iso_write_data_def f1 f2
    by (simp add: write_frame_def track_field_def char_of_track Let_def split: sum.splits)
qed

lemma str_upper_ascii:
  "list_all (\<lambda>c. c < 128) s \<Longrightarrow> str_upper U s = map ascii_upper s"
  by (induction s) (simp_all add: str_upper_def)

lemma ascii_upper_less: "c < 128 \<Longrightarrow> ascii_upper c < 128"
  by (auto simp: ascii_upper_def)

lemma encode_ascii_ok: "list_all (\<lambda>c. c < 128) s \<Longrightarrow> encode_ascii s = Inr (map char_of s)"
  by (simp add: encode_ascii_def)

lemma occurs_at_middle: "length pre = k \<Longrightarrow> occurs_at sub (pre @ sub @ post) k"
  by (auto simp: occurs_at_def)

lemma write_frame_unfold:
  "write_frame p1 p2 p3 =
     [ESC, CHR ''s'', ESC, CHR 0x01] @ p1 @ [FS, ESC, CHR 0x02] @ p2 @ [FS, ESC, CHR 0x03] @ p3
     @ [FS, CHR ''?'', FS]"
  by (simp add: write_frame_def track_field_def char_of_track)

lemma frame_markers:
  "occurs_at [ESC, CHR 0x01] (write_frame p1 p2 p3) 2"
  "occurs_at [ESC, CHR 0x02] (write_frame p1 p2 p3) (5 + length p1)"
  "occurs_at [ESC, CHR 0x03] (write_frame p1 p2 p3) (8 + length p1 + length p2)"
proof -
  show "occurs_at [ESC, CHR 0x01] (write_frame p1 p2 p3) 2"
    using occurs_at_middle[of "[ESC, CHR ''s'']" 2 "[ESC, CHR 0x01]"]
    by (simp add: write_frame_unfold)
  show "occurs_at [ESC, CHR 0x02] (write_frame p1 p2 p3) (5 + length p1)"
    using occurs_at_middle[of "[ESC, CHR ''s'', ESC, CHR 0x01] @ p1 @ [FS]" "5 + length p1"
        "[ESC, CHR 0x02]" "p2 @ [FS, ESC, CHR 0x03] @ p3 @ [FS, CHR ''?'', FS]"]
    by (simp add: write_frame_unfold)
  show "occurs_at [ESC, CHR 0x03] (write_frame p1 p2 p3) (8 + length p1 + length p2)"
    using occurs_at_middle[of "[ESC, CHR ''s'', ESC, CHR 0x01] @ p1 @ [FS, ESC, CHR 0x02] @ p2 @ [FS]"
        "8 + length p1 + length p2" "[ESC, CHR 0x03]" "p3 @ [FS, CHR ''?'', FS]"]
    by (simp add: write_frame_unfold)
qed

lemma build_iso_write_data_ascii:
  assumes "list_all (\<lambda>c. c < 128) (track_or_empty t1 @ track_or_empty t2 @ track_or_empty t3)"
  shows "build_iso_write_data U t1 t2 t3 =
          Inr (write_frame (map char_of (map ascii_upper (track_or_empty t1)))
                 (map char_of (track_or_empty t2)) (map char_of (track_or_empty t3)))"
proof -
  from assms have a1: "list_all (\<lambda>c. c < 128) (track_or_empty t1)"
    and a2: "list_all (\<lambda>c. c < 128) (track_or_empty t2)"
    and a3: "list_all (\<lambda>c. c < 128) (track_or_empty t3)" by simp_all
  from a1 have "list_all (\<lambda>c. c < 128) (map ascii_upper (track_or_empty t1))"
    by (simp add: list_all_iff ascii_upper_less)
  then show ?thesis
    by (simp add: build_iso_write_data_frame str_upper_ascii[OF a1] encode_ascii_ok a2 a3)
qed

text \<open>
  C5, as amended. The RAW encoder emits, for every payload, exactly \<open>ESC 's'\<close>, then for
  each track 1, 2, 3 in this order \<open>ESC trackNum\<close>, the payload (empty for an omitted or
  empty track) and \<open>FS\<close>, then \<open>'?' FS\<close>. The ISO encoder emits that frame when
  \<open>encode('ascii')\<close> accepts the three texts (track 1 after \<open>upper()\<close>), the payloads being
  the encoded texts; this holds whenever every code point is below 128. When
  \<open>encode('ascii')\<close> rejects a text the ISO encoder raises \<open>UnicodeEncodeError\<close>, the error of
  the first rejected track, and emits no frame. Every frame holds the three track markers,
  whatever the payloads are.
\<close>

theorem write_frame_grammar:
  "build_raw_write_data r1 r2 r3 =
     write_frame (track_or_empty r1) (track_or_empty r2) (track_or_empty r3)
   \<and> build_iso_write_data U t1 t2 t3 =
       (case encode_ascii (str_upper U (track_or_empty t1)) of
          Inl e \<Rightarrow> Inl e
        | Inr b1 \<Rightarrow>
           (case encode_ascii (track_or_empty t2) of
              Inl e \<Rightarrow> Inl e
            | Inr b2 \<Rightarrow>
               (case encode_ascii (track_or_empty t3) of
                  Inl e \<Rightarrow> Inl e
                | Inr b3 \<Rightarrow> Inr (write_frame b1 b2 b3))))
   \<and> (list_all (\<lambda>c. c < 128) (track_or_empty t1 @ track_or_empty t2 @ track_or_empty t3) \<longrightarrow>
        build_iso_write_data U t1 t2 t3 =
          Inr (write_frame (map char_of (map ascii_upper (track_or_empty t1)))
                 (map char_of (track_or_empty t2)) (map char_of (track_or_empty t3))))
   \<and> occurs_at [ESC, CHR 0x01] (write_frame p1 p2 p3) 2
   \<and> occurs_at [ESC, CHR 0x02] (write_frame p1 p2 p3) (5 + length p1)
   \<and> occurs_at [ESC, CHR 0x03] (write_frame p1 p2 p3) (8 + length p1 + length p2)"
  using build_raw_write_data_frame build_iso_write_data_frame build_iso_write_data_ascii
    frame_markers
  by blast

theorem write_frame_grammar_witness:
  "list_all (\<lambda>c. c < 128) (track_or_empty (None :: str option) @ track_or_empty (Some (str_of '';41=25?'')) @ track_or_empty (None :: str option))
   \<and> build_iso_write_data (\<lambda>c. [c]) None (Some (str_of '';41=25?'')) None =
       Inr [ESC, CHR ''s'', ESC, CHR 0x01, FS, ESC, CHR 0x02,
            CHR '';'', CHR ''4'', CHR ''1'', CHR ''='', CHR ''2'', CHR ''5'', CHR ''?'',
            FS, ESC, CHR 0x03, FS, CHR ''?'', FS]"
proof -
  have h: "list_all (\<lambda>c. c < 128)
             (track_or_empty (None :: str option) @ track_or_empty (Some (str_of '';41=25?'')) @ track_or_empty (None :: str option))"
    by (simp add: track_or_empty_def str_of_def)
  have f: "write_frame (map char_of (map ascii_upper (track_or_empty (None :: str option))))
          (map char_of (track_or_empty (Some (str_of '';41=25?'')))) (map char_of (track_or_empty (None :: str option)))
        = [ESC, CHR ''s'', ESC, CHR 0x01, FS, ESC, CHR 0x02,
            CHR '';'', CHR ''4'', CHR ''1'', CHR ''='', CHR ''2'', CHR ''5'', CHR ''?'',
            FS, ESC, CHR 0x03, FS, CHR ''?'', FS]"
    by (simp add: write_frame_def track_field_def track_or_empty_def str_of_def char_of_track
        char_of_eq)
  have "build_iso_write_data (\<lambda>c. [c]) None (Some (str_of '';41=25?'')) None =
          Inr (write_frame (map char_of (map ascii_upper (track_or_empty (None :: str option))))
                 (map char_of (track_or_empty (Some (str_of '';41=25?''))))
                 (map char_of (track_or_empty (None :: str option))))"
    by (rule mp[OF write_frame_grammar[of None None None "\<lambda>c. [c]" None
            "Some (str_of '';41=25?'')" None, THEN conjunct2, THEN conjunct2, THEN conjunct1] h])
  with h show ?thesis unfolding f by blast
qed

text \<open>
  The claim as stated (a frame for every input payload) fails in ISO mode: with the text
  \<open>U+00E9\<close> in track 2, \<open>track2.encode('ascii')\<close> raises \<open>UnicodeEncodeError\<close>, which
  \<open>build_iso_write_data\<close> does not handle, and no frame is emitted.
\<close>

theorem write_frame_non_ascii_counterexample:
  "build_iso_write_data (\<lambda>c. [c]) None (Some [233]) None = Inl UnicodeEncodeError"
  by (simp add: build_iso_write_data_def encode_ascii_def)

subsection \<open>Decoding arbitrary bytes\<close>

lemma no_occ_iff: "no_occ sub s start \<longleftrightarrow> (\<forall>j \<ge> start. \<not> occurs_at sub s j)"
proof
  assume a: "no_occ sub s start"
  show "\<forall>j \<ge> start. \<not> occurs_at sub s j"
  proof (intro allI impI)
    fix j assume "start \<le> j"
    show "\<not> occurs_at sub s j"
    proof (cases "j \<le> length s")
      case True
      with \<open>start \<le> j\<close> have "j \<in> set [start..<Suc (length s)]" by auto
      with a show ?thesis unfolding no_occ_def list_all_iff by blast
    next
      case False
      then show ?thesis by (simp add: occurs_at_def)
    qed
  qed
next
  assume "\<forall>j \<ge> start. \<not> occurs_at sub s j"
  then show "no_occ sub s start" unfolding no_occ_def list_all_iff by auto
qed

lemma occurs_bytes_find:
  assumes "occurs_at sub s k" "start \<le> k"
  shows "\<exists>i. bytes_find s sub start = Some i"
proof (cases "bytes_find s sub start")
  case None
  then have "no_occ sub s start" by (simp add: bytes_find_eq_None)
  with assms show ?thesis by (simp add: no_occ_iff)
qed simp

lemma found_track_absent:
  "no_occ [ESC, char_of n] response 0 \<Longrightarrow> found_track fmt max_chars response raw n = None"
  by (simp add: found_track_def bytes_find_eq_None[symmetric])

lemma found_track_numbers_set:
  "track_number ` set (opt_list (found_track fmt max_chars response raw n)) \<subseteq> {n}"
  by (cases "found_track fmt max_chars response raw n")
     (auto simp: opt_list_def dest: found_track_number)

lemma absent_omitted:
  assumes "k \<in> {1, 2, 3}" "no_occ [ESC, char_of k] response 0"
  shows "k \<notin> track_number ` set (opt_list (found_track fmt max_chars response raw 1)
          @ opt_list (found_track fmt max_chars response raw 2)
          @ opt_list (found_track fmt max_chars response raw 3))"
proof -
  have e: "opt_list (found_track fmt max_chars response raw k) = []"
    using found_track_absent[OF assms(2)] by (simp add: opt_list_def)
  show ?thesis
    using assms(1) e found_track_numbers_set[of fmt max_chars response raw 1]
      found_track_numbers_set[of fmt max_chars response raw 2]
      found_track_numbers_set[of fmt max_chars response raw 3]
    by (auto simp: image_Un)
qed

lemma extract_track_handler:
  "extract_track_body fmt max_chars [ESC, CHR 0xFF, CHR ''A''] 255 raw [ESC, CHR 0xFF] [FS]
     = Inl ValueError"
  "extract_track fmt max_chars [ESC, CHR 0xFF, CHR ''A''] 255 raw = Inr None"
proof -
  have c: "char_of (255::nat) = CHR 0xFF" by (simp add: char_of_eq)
  show b: "extract_track_body fmt max_chars [ESC, CHR 0xFF, CHR ''A''] 255 raw [ESC, CHR 0xFF] [FS]
     = Inl ValueError"
    by (simp add: extract_track_body_def bytes_find_def py_bytes2_def ESC_def FS_def)
  show "extract_track fmt max_chars [ESC, CHR 0xFF, CHR ''A''] 255 raw = Inr None"
    by (simp add: extract_track_def py_bytes2_track c b)
qed

text \<open>
  C7. On every byte string both decoders return a list of \<open>TrackData\<close> (\<open>Inr\<close>), never an
  exception, and a track whose start marker is absent is not in the list. The decoders call
  \<open>_extract_track\<close> for the tracks 1, 2, 3; for every track number in \<open>range(256)\<close> that
  function returns, its handler turning an exception of its body into \<open>None\<close>.
\<close>

theorem decoders_never_raise:
  "(\<exists>tracks. parse_iso_response fmt max_chars response = Inr tracks
      \<and> (\<forall>k \<in> {1, 2, 3}. no_occ [ESC, char_of k] response 0 \<longrightarrow> k \<notin> track_number ` set tracks))
   \<and> (\<exists>tracks. parse_raw_response fmt max_chars response = Inr tracks
      \<and> (\<forall>k \<in> {1, 2, 3}. no_occ [ESC, char_of k] response 0 \<longrightarrow> k \<notin> track_number ` set tracks))
   \<and> (track_num < 256 \<longrightarrow> (\<exists>r. extract_track fmt max_chars response track_num raw = Inr r))"
  unfolding parse_iso_response_eq parse_raw_response_eq
  using absent_omitted[of _ response fmt max_chars]
    extract_track_total[of track_num fmt max_chars response raw]
  by blast

theorem decoders_never_raise_witness:
  "no_occ [ESC, char_of (1::nat)] [CHR 0xFF, ESC, CHR 0x02, CHR 0x80, ESC] 0
   \<and> (\<exists>tracks. parse_iso_response ISO (\<lambda>n. 79) [CHR 0xFF, ESC, CHR 0x02, CHR 0x80, ESC] = Inr tracks
        \<and> 1 \<notin> track_number ` set tracks)
   \<and> (\<exists>tracks. parse_raw_response ISO (\<lambda>n. 79) [CHR 0xFF, ESC, CHR 0x02, CHR 0x80, ESC] = Inr tracks
        \<and> 1 \<notin> track_number ` set tracks)
   \<and> (255::nat) < 256
   \<and> (\<exists>r. extract_track ISO (\<lambda>n. 79) [CHR 0xFF, ESC, CHR 0x02, CHR 0x80, ESC] 255 False = Inr r)"
proof -
  define resp where "resp = [CHR 0xFF, ESC, CHR 0x02, CHR 0x80, ESC]"
  define mc where "mc = (\<lambda>n::nat. 79::nat)"
  have h: "no_occ [ESC, char_of (1::nat)] resp 0"
    unfolding resp_def
    by (simp add: bytes_find_eq_None[symmetric] bytes_find_def ESC_def char_of_track)
  have k: "(1::nat) \<in> {1, 2, 3}" by simp
  have l: "(255::nat) < 256" by simp
  note t = decoders_never_raise[of ISO mc resp 255 False]
  from t obtain a where a: "parse_iso_response ISO mc resp = Inr a"
    "\<forall>k \<in> {1, 2, 3}. no_occ [ESC, char_of k] resp 0 \<longrightarrow> k \<notin> track_number ` set a"
    by blast
  from t obtain b where b: "parse_raw_response ISO mc resp = Inr b"
    "\<forall>k \<in> {1, 2, 3}. no_occ [ESC, char_of k] resp 0 \<longrightarrow> k \<notin> track_number ` set b"
    by blast
  from t l obtain r where r: "extract_track ISO mc resp 255 False = Inr r" by blast
  from a(2) k h have a1: "1 \<notin> track_number ` set a" by blast
  from b(2) k h have b1: "1 \<notin> track_number ` set b" by blast
  have "no_occ [ESC, char_of (1::nat)] resp 0
    \<and> (\<exists>tracks. parse_iso_response ISO mc resp = Inr tracks \<and> 1 \<notin> track_number ` set tracks)
    \<and> (\<exists>tracks. parse_raw_response ISO mc resp = Inr tracks \<and> 1 \<notin> track_number ` set tracks)
    \<and> (255::nat) < 256
    \<and> (\<exists>r. extract_track ISO mc resp 255 False = Inr r)"
    using h a(1) a1 b(1) b1 l r by blast
  then show ?thesis unfolding resp_def mc_def .
qed

subsection \<open>Entries of a decoded list and the end of a segment\<close>

lemma text_track_fields:
  "track_number (text_track fmt max_chars n seg) = n"
  "raw_data (text_track fmt max_chars n seg) = seg"
  "data (text_track fmt max_chars n seg) = clean_track_data (decode_ascii_replace seg) n"
  "is_valid (text_track fmt max_chars n seg) =
     validate_track_data fmt max_chars (clean_track_data (decode_ascii_replace seg) n) n"
  "error_message (text_track fmt max_chars n seg) =
     (if validate_track_data fmt max_chars (clean_track_data (decode_ascii_replace seg) n) n
      then None else Some ''Invalid characters in track data'')"
  by (simp_all add: text_track_def Let_def)

lemma raw_track_fields:
  "track_number (raw_track n seg) = n"
  "raw_data (raw_track n seg) = seg"
  "data (raw_track n seg) = bytes_hex seg"
  "is_valid (raw_track n seg) = (seg \<noteq> [])"
  "error_message (raw_track n seg) = None"
  by (simp_all add: raw_track_def)

lemma clean_empty: "clean_track_data (decode_ascii_replace []) n = []"
  by (simp add: clean_track_data_def decode_ascii_replace_def py_strip_def)

lemma first_occ_le: "first_occ sub s start e \<Longrightarrow> e \<le> length s"
  by (simp add: first_occ_def occurs_at_def)

lemma segment_ends_le: "segment_ends response k start e \<Longrightarrow> e \<le> length response"
  by (auto simp: segment_ends_def dest: first_occ_le split: if_splits)

lemma segment_ends_unique:
  "segment_ends response k start e \<Longrightarrow> segment_ends response k start e' \<Longrightarrow> e = e'"
  by (auto simp: segment_ends_def dest: first_occ_unique split: if_splits)

lemma segment_end_of_ends: "segment_ends response k start (segment_end_of response k start)"
  unfolding segment_end_of_def segment_ends_def
  by (auto simp: bytes_find_eq_Some[symmetric] bytes_find_eq_None[symmetric]
      split: option.splits)

lemma is_segmentI:
  assumes "first_occ [ESC, char_of k] response 0 i" "segment_ends response k (i + 2) e"
  shows "is_segment response k (py_slice response (i + 2) e)"
proof -
  from first_occ_le[OF assms(1)] have "i \<in> set [0..<Suc (length response)]" by auto
  moreover from segment_ends_le[OF assms(2)] have "e \<in> set [0..<Suc (length response)]" by auto
  ultimately show ?thesis
    unfolding is_segment_def list_ex_iff using assms by blast
qed

lemma is_segment_unique:
  assumes "is_segment response k seg" "is_segment response k seg'"
  shows "seg = seg'"
proof -
  from assms(1) obtain i e where a: "first_occ [ESC, char_of k] response 0 i"
    "segment_ends response k (i + 2) e" "seg = py_slice response (i + 2) e"
    unfolding is_segment_def list_ex_iff by blast
  from assms(2) obtain i' e' where b: "first_occ [ESC, char_of k] response 0 i'"
    "segment_ends response k (i' + 2) e'" "seg' = py_slice response (i' + 2) e'"
    unfolding is_segment_def list_ex_iff by blast
  from a(1) b(1) have i: "i = i'" by (rule first_occ_unique)
  with a(2) b(2) have "e = e'" by (auto dest: segment_ends_unique)
  with i a(3) b(3) show ?thesis by simp
qed

lemma found_track_present:
  assumes "occurs_at [ESC, char_of n] response k"
  shows "\<exists>td. found_track fmt max_chars response raw n = Some td \<and> track_number td = n
           \<and> is_segment response n (raw_data td)
           \<and> (raw_data td = [] \<longrightarrow> \<not> is_valid td
                \<and> (\<not> raw \<longrightarrow> error_message td = Some ''Invalid characters in track data''))"
proof -
  from occurs_bytes_find[OF assms, of 0]
  obtain i where i: "bytes_find response [ESC, char_of n] 0 = Some i" by auto
  then have f: "first_occ [ESC, char_of n] response 0 i" by (simp add: bytes_find_eq_Some)
  define seg where "seg = py_slice response (i + 2) (segment_end_of response n (i + 2))"
  have s: "is_segment response n seg"
    unfolding seg_def by (rule is_segmentI[OF f segment_end_of_ends])
  have x: "found_track fmt max_chars response raw n =
             Some (if raw then raw_track n seg else text_track fmt max_chars n seg)"
    unfolding found_track_def i seg_def by (simp add: Let_def)
  show ?thesis
  proof (cases raw)
    case True
    with x have "found_track fmt max_chars response raw n = Some (raw_track n seg)" by simp
    with s True show ?thesis by (simp add: raw_track_fields)
  next
    case False
    with x have "found_track fmt max_chars response raw n = Some (text_track fmt max_chars n seg)"
      by simp
    with s False show ?thesis
      by (simp add: text_track_fields clean_empty validate_track_data_def)
  qed
qed

lemma is_segment_eval:
  "is_segment response k seg =
     (case bytes_find response [ESC, char_of k] 0 of
        None \<Rightarrow> False
      | Some i \<Rightarrow> seg = py_slice response (i + 2) (segment_end_of response k (i + 2)))"
proof (cases "bytes_find response [ESC, char_of k] 0")
  case None
  then have n: "no_occ [ESC, char_of k] response 0" by (simp add: bytes_find_eq_None)
  have "\<not> is_segment response k seg"
  proof
    assume "is_segment response k seg"
    then obtain i where "first_occ [ESC, char_of k] response 0 i"
      unfolding is_segment_def list_ex_iff by blast
    then have "\<not> no_occ [ESC, char_of k] response 0" by (rule first_occ_not_no_occ)
    with n show False by simp
  qed
  with None show ?thesis by simp
next
  case (Some i)
  then have f: "first_occ [ESC, char_of k] response 0 i" by (simp add: bytes_find_eq_Some)
  have s: "is_segment response k (py_slice response (i + 2) (segment_end_of response k (i + 2)))"
    by (rule is_segmentI[OF f segment_end_of_ends])
  have "is_segment response k seg
          = (seg = py_slice response (i + 2) (segment_end_of response k (i + 2)))"
    using s is_segment_unique[OF s, of seg] by auto
  with Some show ?thesis by simp
qed

text \<open>
  C9. When the response holds the three start markers \<open>ESC 1\<close>, \<open>ESC 2\<close>, \<open>ESC 3\<close> (as every
  encoder output does), both decoders return exactly three entries, for tracks 1, 2, 3, and
  the \<open>raw_data\<close> of each entry is the segment of its track in the response: the bytes
  between the end of the first start marker of the track and the end of the segment. A
  track whose segment in the response is empty is still in the list, with
  \<open>is_valid = False\<close>, and in the text decoder with an error message.
\<close>

theorem all_markers_three_entries:
  assumes "occurs_at [ESC, CHR 0x01] response k1"
    and "occurs_at [ESC, CHR 0x02] response k2"
    and "occurs_at [ESC, CHR 0x03] response k3"
  shows "(\<exists>a b c. parse_iso_response fmt max_chars response = Inr [a, b, c]
            \<and> map track_number [a, b, c] = [1, 2, 3]
            \<and> list_all (\<lambda>td. is_segment response (track_number td) (raw_data td)) [a, b, c]
            \<and> list_all (\<lambda>td. is_segment response (track_number td) [] \<longrightarrow> \<not> is_valid td
                   \<and> error_message td = Some ''Invalid characters in track data'') [a, b, c])
       \<and> (\<exists>a b c. parse_raw_response fmt max_chars response = Inr [a, b, c]
            \<and> map track_number [a, b, c] = [1, 2, 3]
            \<and> list_all (\<lambda>td. is_segment response (track_number td) (raw_data td)) [a, b, c]
            \<and> list_all (\<lambda>td. is_segment response (track_number td) [] \<longrightarrow> \<not> is_valid td)
                 [a, b, c])"
proof -
  have m: "occurs_at [ESC, char_of (1::nat)] response k1" "occurs_at [ESC, char_of (2::nat)] response k2"
    "occurs_at [ESC, char_of (3::nat)] response k3"
    using assms by (simp_all add: char_of_track)
  have e: "is_segment response n [] \<Longrightarrow> is_segment response n s \<Longrightarrow> s = []" for n s
    by (rule is_segment_unique[symmetric])
  from found_track_present[OF m(1), of fmt max_chars False]
    found_track_present[OF m(2), of fmt max_chars False]
    found_track_present[OF m(3), of fmt max_chars False]
  obtain a b c where
    "found_track fmt max_chars response False 1 = Some a" "track_number a = 1"
    "is_segment response 1 (raw_data a)"
    "raw_data a = [] \<longrightarrow> \<not> is_valid a \<and> error_message a = Some ''Invalid characters in track data''"
    "found_track fmt max_chars response False 2 = Some b" "track_number b = 2"
    "is_segment response 2 (raw_data b)"
    "raw_data b = [] \<longrightarrow> \<not> is_valid b \<and> error_message b = Some ''Invalid characters in track data''"
    "found_track fmt max_chars response False 3 = Some c" "track_number c = 3"
    "is_segment response 3 (raw_data c)"
    "raw_data c = [] \<longrightarrow> \<not> is_valid c \<and> error_message c = Some ''Invalid characters in track data''"
    by auto
  then have iso: "\<exists>a b c. parse_iso_response fmt max_chars response = Inr [a, b, c]
            \<and> map track_number [a, b, c] = [1, 2, 3]
            \<and> list_all (\<lambda>td. is_segment response (track_number td) (raw_data td)) [a, b, c]
            \<and> list_all (\<lambda>td. is_segment response (track_number td) [] \<longrightarrow> \<not> is_valid td
                   \<and> error_message td = Some ''Invalid characters in track data'') [a, b, c]"
    using e by (simp add: parse_iso_response_eq opt_list_def)
  from found_track_present[OF m(1), of fmt max_chars True]
    found_track_present[OF m(2), of fmt max_chars True]
    found_track_present[OF m(3), of fmt max_chars True]
  obtain a b c where
    "found_track fmt max_chars response True 1 = Some a" "track_number a = 1"
    "is_segment response 1 (raw_data a)"
    "raw_data a = [] \<longrightarrow> \<not> is_valid a"
    "found_track fmt max_chars response True 2 = Some b" "track_number b = 2"
    "is_segment response 2 (raw_data b)"
    "raw_data b = [] \<longrightarrow> \<not> is_valid b"
    "found_track fmt max_chars response True 3 = Some c" "track_number c = 3"
    "is_segment response 3 (raw_data c)"
    "raw_data c = [] \<longrightarrow> \<not> is_valid c"
    by auto
  then have raw: "\<exists>a b c. parse_raw_response fmt max_chars response = Inr [a, b, c]
            \<and> map track_number [a, b, c] = [1, 2, 3]
            \<and> list_all (\<lambda>td. is_segment response (track_number td) (raw_data td)) [a, b, c]
            \<and> list_all (\<lambda>td. is_segment response (track_number td) [] \<longrightarrow> \<not> is_valid td)
                 [a, b, c]"
    using e by (simp add: parse_raw_response_eq opt_list_def)
  from iso raw show ?thesis by (rule conjI)
qed

theorem all_markers_three_entries_witness:
  "occurs_at [ESC, CHR 0x01] (build_raw_write_data None (Some [CHR ''A'', CHR ''B'']) None) 2
   \<and> occurs_at [ESC, CHR 0x02] (build_raw_write_data None (Some [CHR ''A'', CHR ''B'']) None) 5
   \<and> occurs_at [ESC, CHR 0x03] (build_raw_write_data None (Some [CHR ''A'', CHR ''B'']) None) 10
   \<and> is_segment (build_raw_write_data None (Some [CHR ''A'', CHR ''B'']) None) 1 []
   \<and> is_segment (build_raw_write_data None (Some [CHR ''A'', CHR ''B'']) None) 2
        [CHR ''A'', CHR ''B'']
   \<and> is_segment (build_raw_write_data None (Some [CHR ''A'', CHR ''B'']) None) 3 []
   \<and> (\<exists>a b c. parse_iso_response ISO (\<lambda>n. 79)
                  (build_raw_write_data None (Some [CHR ''A'', CHR ''B'']) None) = Inr [a, b, c]
          \<and> map track_number [a, b, c] = [1, 2, 3]
          \<and> raw_data a = [] \<and> \<not> is_valid a
          \<and> error_message a = Some ''Invalid characters in track data''
          \<and> raw_data b = [CHR ''A'', CHR ''B'']
          \<and> raw_data c = [] \<and> \<not> is_valid c
          \<and> error_message c = Some ''Invalid characters in track data'')
   \<and> (\<exists>a b c. parse_raw_response ISO (\<lambda>n. 79)
                  (build_raw_write_data None (Some [CHR ''A'', CHR ''B'']) None) = Inr [a, b, c]
          \<and> map track_number [a, b, c] = [1, 2, 3]
          \<and> raw_data a = [] \<and> \<not> is_valid a
          \<and> raw_data b = [CHR ''A'', CHR ''B'']
          \<and> raw_data c = [] \<and> \<not> is_valid c)"
proof -
  define r where "r = build_raw_write_data None (Some [CHR ''A'', CHR ''B'']) None"
  have fr: "r = write_frame [] [CHR ''A'', CHR ''B''] []"
    by (simp add: r_def build_raw_write_data_frame track_or_empty_def)
  have h1: "occurs_at [ESC, CHR 0x01] r 2" unfolding fr by (rule frame_markers(1))
  have h2: "occurs_at [ESC, CHR 0x02] r 5" unfolding fr using frame_markers(2)[of "[]"] by simp
  have h3: "occurs_at [ESC, CHR 0x03] r 10"
    unfolding fr using frame_markers(3)[of "[]" "[CHR ''A'', CHR ''B'']"] by simp
  have s1: "is_segment r 1 []"
    by (simp add: fr write_frame_unfold is_segment_eval bytes_find_def segment_end_of_def
        py_slice_def char_of_track FS_def ESC_def)
  have s2: "is_segment r 2 [CHR ''A'', CHR ''B'']"
    by (simp add: fr write_frame_unfold is_segment_eval bytes_find_def segment_end_of_def
        py_slice_def char_of_track FS_def ESC_def)
  have s3: "is_segment r 3 []"
    by (simp add: fr write_frame_unfold is_segment_eval bytes_find_def segment_end_of_def
        py_slice_def char_of_track FS_def ESC_def)
  note t = all_markers_three_entries[OF h1 h2 h3, of ISO "\<lambda>n. 79"]
  from t[THEN conjunct1] obtain a b c where
    p: "parse_iso_response ISO (\<lambda>n. 79) r = Inr [a, b, c]"
    and n: "track_number a = 1" "track_number b = 2" "track_number c = 3"
    and g: "is_segment r (track_number a) (raw_data a)" "is_segment r (track_number b) (raw_data b)"
      "is_segment r (track_number c) (raw_data c)"
    and v: "is_segment r (track_number a) [] \<longrightarrow> \<not> is_valid a
              \<and> error_message a = Some ''Invalid characters in track data''"
      "is_segment r (track_number c) [] \<longrightarrow> \<not> is_valid c
              \<and> error_message c = Some ''Invalid characters in track data''"
    by auto
  have da: "raw_data a = []" using g(1) s1 unfolding n by (rule is_segment_unique)
  have db: "raw_data b = [CHR ''A'', CHR ''B'']" using g(2) s2 unfolding n by (rule is_segment_unique)
  have dc: "raw_data c = []" using g(3) s3 unfolding n by (rule is_segment_unique)
  from v(1) s1 have va: "\<not> is_valid a" "error_message a = Some ''Invalid characters in track data''"
    unfolding n by simp_all
  from v(2) s3 have vc: "\<not> is_valid c" "error_message c = Some ''Invalid characters in track data''"
    unfolding n by simp_all
  have iso: "\<exists>a b c. parse_iso_response ISO (\<lambda>n. 79) r = Inr [a, b, c]
          \<and> map track_number [a, b, c] = [1, 2, 3]
          \<and> raw_data a = [] \<and> \<not> is_valid a
          \<and> error_message a = Some ''Invalid characters in track data''
          \<and> raw_data b = [CHR ''A'', CHR ''B'']
          \<and> raw_data c = [] \<and> \<not> is_valid c
          \<and> error_message c = Some ''Invalid characters in track data''"
    using p n da db dc va vc by simp
  from t[THEN conjunct2] obtain a b c where
    p: "parse_raw_response ISO (\<lambda>n. 79) r = Inr [a, b, c]"
    and n: "track_number a = 1" "track_number b = 2" "track_number c = 3"
    and g: "is_segment r (track_number a) (raw_data a)" "is_segment r (track_number b) (raw_data b)"
      "is_segment r (track_number c) (raw_data c)"
    and v: "is_segment r (track_number a) [] \<longrightarrow> \<not> is_valid a"
      "is_segment r (track_number c) [] \<longrightarrow> \<not> is_valid c"
    by auto
  have da: "raw_data a = []" using g(1) s1 unfolding n by (rule is_segment_unique)
  have db: "raw_data b = [CHR ''A'', CHR ''B'']" using g(2) s2 unfolding n by (rule is_segment_unique)
  have dc: "raw_data c = []" using g(3) s3 unfolding n by (rule is_segment_unique)
  from v(1) s1 have va: "\<not> is_valid a" unfolding n by simp
  from v(2) s3 have vc: "\<not> is_valid c" unfolding n by simp
  have raw: "\<exists>a b c. parse_raw_response ISO (\<lambda>n. 79) r = Inr [a, b, c]
          \<and> map track_number [a, b, c] = [1, 2, 3]
          \<and> raw_data a = [] \<and> \<not> is_valid a
          \<and> raw_data b = [CHR ''A'', CHR ''B'']
          \<and> raw_data c = [] \<and> \<not> is_valid c"
    using p n da db dc va vc by simp
  from h1 h2 h3 s1 s2 s3 iso raw show ?thesis unfolding r_def by (intro conjI) assumption+
qed

text \<open>
  C4, as amended. For a track 1, 2 or 3 whose start marker is present, the segment starts
  after the first start marker and ends at the first field separator after it, if there is
  one (even when another marker comes earlier); otherwise at the first start marker of the
  next track, if there is one; otherwise at the first status marker \<open>ESC '0'\<close>; otherwise at
  the end of the buffer.
\<close>

theorem segment_end_priority:
  assumes "track_num \<in> {1, 2, 3}"
    and "occurs_at [ESC, char_of track_num] response k"
  shows "\<exists>td i e. extract_track fmt max_chars response track_num raw = Inr (Some td)
     \<and> first_occ [ESC, char_of track_num] response 0 i
     \<and> raw_data td = py_slice response (i + 2) e
     \<and> (if \<not> no_occ [FS] response (i + 2) then first_occ [FS] response (i + 2) e
        else if \<not> no_occ [ESC, char_of (track_num + 1)] response (i + 2)
          then first_occ [ESC, char_of (track_num + 1)] response (i + 2) e
        else if \<not> no_occ [ESC, CHR ''0''] response (i + 2)
          then first_occ [ESC, CHR ''0''] response (i + 2) e
        else e = length response)"
proof -
  from occurs_bytes_find[OF assms(2), of 0]
  obtain i where i: "bytes_find response [ESC, char_of track_num] 0 = Some i" by auto
  define e where "e = segment_end_of response track_num (i + 2)"
  define td where "td = (if raw then raw_track track_num (py_slice response (i + 2) e)
                         else text_track fmt max_chars track_num (py_slice response (i + 2) e))"
  from assms(1) have "track_num < 255" by auto
  then have x: "extract_track fmt max_chars response track_num raw = Inr (Some td)"
    by (simp add: extract_track_found found_track_def i td_def e_def Let_def)
  have r: "raw_data td = py_slice response (i + 2) e"
    by (simp add: td_def text_track_fields raw_track_fields)
  have f: "first_occ [ESC, char_of track_num] response 0 i"
    using i by (simp add: bytes_find_eq_Some)
  have p: "if \<not> no_occ [FS] response (i + 2) then first_occ [FS] response (i + 2) e
        else if \<not> no_occ [ESC, char_of (track_num + 1)] response (i + 2)
          then first_occ [ESC, char_of (track_num + 1)] response (i + 2) e
        else if \<not> no_occ [ESC, CHR ''0''] response (i + 2)
          then first_occ [ESC, CHR ''0''] response (i + 2) e
        else e = length response"
    unfolding e_def segment_end_of_def
    by (auto simp: bytes_find_eq_Some[symmetric] bytes_find_eq_None[symmetric]
        split: option.splits)
  from x f r p show ?thesis by blast
qed

theorem segment_end_priority_witness:
  "(1::nat) \<in> {1, 2, 3}
   \<and> occurs_at [ESC, char_of (1::nat)] [ESC, CHR 0x01, CHR ''A'', ESC, CHR 0x02, CHR ''B''] 0
   \<and> (\<exists>td i e. extract_track ISO (\<lambda>n. 79) [ESC, CHR 0x01, CHR ''A'', ESC, CHR 0x02, CHR ''B''] 1 False
                   = Inr (Some td)
        \<and> first_occ [ESC, char_of (1::nat)] [ESC, CHR 0x01, CHR ''A'', ESC, CHR 0x02, CHR ''B''] 0 i
        \<and> raw_data td = py_slice [ESC, CHR 0x01, CHR ''A'', ESC, CHR 0x02, CHR ''B''] (i + 2) e
        \<and> no_occ [FS] [ESC, CHR 0x01, CHR ''A'', ESC, CHR 0x02, CHR ''B''] (i + 2)
        \<and> first_occ [ESC, CHR 0x02] [ESC, CHR 0x01, CHR ''A'', ESC, CHR 0x02, CHR ''B''] (i + 2) e
        \<and> i = 0 \<and> e = 3 \<and> raw_data td = [CHR ''A''])"
proof -
  define r where "r = [ESC, CHR 0x01, CHR ''A'', ESC, CHR 0x02, CHR ''B'']"
  have h1: "(1::nat) \<in> {1, 2, 3}" by simp
  have h2: "occurs_at [ESC, char_of (1::nat)] r 0"
    by (simp add: r_def occurs_at_def char_of_track)
  from segment_end_priority[OF h1 h2, of ISO "\<lambda>n. 79" False]
  obtain td i e where
    x: "extract_track ISO (\<lambda>n. 79) r 1 False = Inr (Some td)"
    and f: "first_occ [ESC, char_of (1::nat)] r 0 i"
    and s: "raw_data td = py_slice r (i + 2) e"
    and p: "if \<not> no_occ [FS] r (i + 2) then first_occ [FS] r (i + 2) e
        else if \<not> no_occ [ESC, char_of ((1::nat) + 1)] r (i + 2)
          then first_occ [ESC, char_of ((1::nat) + 1)] r (i + 2) e
        else if \<not> no_occ [ESC, CHR ''0''] r (i + 2)
          then first_occ [ESC, CHR ''0''] r (i + 2) e
        else e = length r"
    by blast
  have "bytes_find r [ESC, char_of (1::nat)] 0 = Some 0"
    by (simp add: r_def bytes_find_def char_of_track)
  with f have i0: "i = 0" by (simp add: bytes_find_eq_Some[symmetric])
  have z: "(0::nat) + 2 = 2" by simp
  have n: "no_occ [FS] r 2"
    by (simp add: r_def bytes_find_eq_None[symmetric] bytes_find_def FS_def ESC_def)
  have m: "first_occ [ESC, CHR 0x02] r 2 3"
    by (simp add: r_def bytes_find_eq_Some[symmetric] bytes_find_def FS_def ESC_def)
  then have nm: "\<not> no_occ [ESC, CHR 0x02] r 2" by (rule first_occ_not_no_occ)
  have c2: "char_of ((1::nat) + 1) = CHR 0x02" by (simp add: char_of_eq)
  note p' = p[unfolded c2 i0 z]
  from p' n nm have fe2: "first_occ [ESC, CHR 0x02] r 2 e" by metis
  with m have e3: "e = 3" by (auto dest: first_occ_unique)
  have d: "raw_data td = [CHR ''A'']" using s by (simp add: i0 e3 r_def py_slice_def)
  have n': "no_occ [FS] r (i + 2)" unfolding i0 z by (rule n)
  have fe: "first_occ [ESC, CHR 0x02] r (i + 2) e" unfolding i0 z by (rule fe2)
  from h1 h2 x f s n' fe i0 e3 d show ?thesis unfolding r_def by blast
qed

text \<open>
  The claim as stated (the segment ends at the nearest of the delimiters) fails: in
  \<open>ESC 1 'A' ESC 2 'B' FS\<close> the start marker of track 2 is at index 3, nearer than the field
  separator at index 6, and the segment of track 1 runs to the field separator.
\<close>

theorem segment_end_nearest_counterexample:
  "extract_track RAW (\<lambda>n. 79) [ESC, CHR 0x01, CHR ''A'', ESC, CHR 0x02, CHR ''B'', FS] 1 True =
     Inr (Some \<lparr>track_number = 1, data = str_of ''411b0242'',
                raw_data = [CHR ''A'', ESC, CHR 0x02, CHR ''B''], is_valid = True,
                format = RAW, error_message = None\<rparr>)
   \<and> occurs_at [ESC, CHR 0x02] [ESC, CHR 0x01, CHR ''A'', ESC, CHR 0x02, CHR ''B'', FS] 3
   \<and> occurs_at [FS] [ESC, CHR 0x01, CHR ''A'', ESC, CHR 0x02, CHR ''B'', FS] 6"
  by (simp add: extract_track_found found_track_def segment_end_of_def bytes_find_def
      raw_track_def py_slice_def bytes_hex_def hex_digit_def str_of_def ESC_def FS_def
      char_of_track occurs_at_def)

subsection \<open>Decoding an encoded frame\<close>

lemma bytes_find_at_prefix:
  "length pre = start \<Longrightarrow> bytes_find (pre @ rest) sub start = find_aux sub rest start"
  by (auto simp: bytes_find_def)

lemma find_aux_single:
  "a \<notin> set p \<Longrightarrow> find_aux [a] (p @ a # rest) i = Some (i + length p)"
  by (induction p arbitrary: i) auto

lemma no_occ_Cons:
  assumes "no_occ sub (x # p) 0"
  shows "no_occ sub p 0" and "\<not> occurs_at sub (x # p) 0"
proof -
  from assms have a: "\<And>j. \<not> occurs_at sub (x # p) j" by (simp add: no_occ_iff)
  show "\<not> occurs_at sub (x # p) 0" by (rule a)
  have "\<not> occurs_at sub p j" for j using a[of "Suc j"] by (simp add: occurs_at_Cons_Suc)
  then show "no_occ sub p 0" by (simp add: no_occ_iff)
qed

lemma find_aux_skip_payload:
  assumes "no_occ [a, b] p 0" "b \<noteq> c"
  shows "find_aux [a, b] (p @ c # rest) i = find_aux [a, b] (c # rest) (i + length p)"
  using assms
proof (induction p arbitrary: i)
  case Nil
  then show ?case by simp
next
  case (Cons x p)
  from no_occ_Cons[OF Cons.prems(1)] have n: "no_occ [a, b] p 0"
    and o: "\<not> occurs_at [a, b] (x # p) 0" by auto
  have ne: "take (length [a, b]) (x # (p @ c # rest)) \<noteq> [a, b]"
  proof (cases p)
    case Nil
    then show ?thesis using Cons.prems(2) by auto
  next
    case (Cons y q)
    then show ?thesis using o by (auto simp: occurs_at_def)
  qed
  have "find_aux [a, b] ((x # p) @ c # rest) i = find_aux [a, b] (x # (p @ c # rest)) i"
    by simp
  also have "\<dots> = find_aux [a, b] (p @ c # rest) (Suc i)"
    by (subst find_aux.simps(2)) (simp only: ne if_False)
  also have "\<dots> = find_aux [a, b] (c # rest) (Suc i + length p)"
    by (rule Cons.IH[OF n Cons.prems(2)])
  finally show ?case by simp
qed

lemma no_occ_absent: "a \<notin> set p \<Longrightarrow> no_occ (a # sub) p 0"
proof -
  assume a: "a \<notin> set p"
  have "\<not> occurs_at (a # sub) p j" for j
  proof
    assume o: "occurs_at (a # sub) p j"
    then have "j < length p" "take (Suc (length sub)) (drop j p) = a # sub"
      by (auto simp: occurs_at_def)
    then have "p ! j = a"
      by (metis Cons_nth_drop_Suc list.inject take_Suc_Cons)
    with \<open>j < length p\<close> a show False by (metis nth_mem)
  qed
  then show ?thesis by (simp add: no_occ_iff)
qed

lemma chars_neq:
  "ESC \<noteq> CHR ''s''" "CHR ''s'' \<noteq> ESC" "CHR 0x01 \<noteq> ESC" "CHR 0x02 \<noteq> ESC" "FS \<noteq> ESC"
  "ESC \<noteq> FS" "CHR 0x02 \<noteq> FS" "CHR 0x03 \<noteq> FS" "CHR 0x01 \<noteq> CHR 0x02" "CHR 0x01 \<noteq> CHR 0x03"
  "CHR 0x02 \<noteq> CHR 0x03" "CHR 0x02 \<noteq> CHR 0x01" "CHR 0x03 \<noteq> CHR 0x01" "CHR 0x03 \<noteq> CHR 0x02"
  "CHR ''s'' \<noteq> CHR 0x01" "CHR ''s'' \<noteq> CHR 0x02" "CHR ''s'' \<noteq> CHR 0x03"
  by (simp_all add: ESC_def FS_def)

lemma found_track_at:
  assumes "bytes_find F [ESC, char_of n] 0 = Some i"
    and "bytes_find F [FS] (i + 2) = Some e"
    and "py_slice F (i + 2) e = p"
  shows "found_track fmt max_chars F raw n =
           Some (if raw then raw_track n p else text_track fmt max_chars n p)"
  unfolding found_track_def segment_end_of_def Let_def assms option.case by simp

lemma segment_in_frame:
  assumes "length pre = a" "FS \<notin> set p"
  shows "bytes_find (pre @ p @ FS # rest) [FS] a = Some (a + length p)"
    and "py_slice (pre @ p @ FS # rest) a (a + length p) = p"
  using assms bytes_find_at_prefix[of pre a "p @ FS # rest" "[FS]"] find_aux_single[of FS p rest a]
  by (simp_all add: py_slice_def)

lemma frame_track1:
  assumes "FS \<notin> set p1"
  shows "found_track fmt max_chars (write_frame p1 p2 p3) raw 1 =
           Some (if raw then raw_track 1 p1 else text_track fmt max_chars 1 p1)"
proof -
  let ?F = "write_frame p1 p2 p3"
  let ?rest = "[ESC, CHR 0x02] @ p2 @ [FS, ESC, CHR 0x03] @ p3 @ [FS, CHR ''?'', FS]"
  have F: "?F = [ESC, CHR ''s'', ESC, CHR 0x01] @ p1 @ FS # ?rest"
    by (simp add: write_frame_unfold)
  have m: "bytes_find ?F [ESC, char_of (1::nat)] 0 = Some 2"
    by (simp add: write_frame_unfold bytes_find_def char_of_track chars_neq)
  have l: "length [ESC, CHR ''s'', ESC, CHR 0x01] = 2 + 2" by simp
  show ?thesis
    unfolding F
    by (rule found_track_at[OF m[unfolded F] segment_in_frame(1)[OF l assms]
          segment_in_frame(2)[OF l assms]])
qed

lemma frame_track2:
  assumes "FS \<notin> set p2" "no_occ [ESC, CHR 0x02] p1 0"
  shows "found_track fmt max_chars (write_frame p1 p2 p3) raw 2 =
           Some (if raw then raw_track 2 p2 else text_track fmt max_chars 2 p2)"
proof -
  let ?F = "write_frame p1 p2 p3"
  let ?pre = "[ESC, CHR ''s'', ESC, CHR 0x01] @ p1 @ [FS, ESC, CHR 0x02]"
  let ?rest = "[ESC, CHR 0x03] @ p3 @ [FS, CHR ''?'', FS]"
  have F: "?F = ?pre @ p2 @ FS # ?rest"
    by (simp add: write_frame_unfold)
  have "find_aux [ESC, CHR 0x02] (p1 @ FS # ESC # CHR 0x02 # p2 @ FS # ?rest) i
          = Some (Suc (i + length p1))" for i
    using find_aux_skip_payload[OF assms(2) chars_neq(7), of "ESC # CHR 0x02 # p2 @ FS # ?rest" i]
    by (simp add: chars_neq)
  then have m: "bytes_find ?F [ESC, char_of (2::nat)] 0 = Some (5 + length p1)"
    by (simp add: write_frame_unfold bytes_find_def char_of_track chars_neq)
  have l: "length ?pre = 5 + length p1 + 2" by simp
  show ?thesis
    unfolding F
    by (rule found_track_at[OF m[unfolded F] segment_in_frame(1)[OF l assms(1)]
          segment_in_frame(2)[OF l assms(1)]])
qed

lemma frame_track3:
  assumes "FS \<notin> set p3" "no_occ [ESC, CHR 0x03] p1 0" "no_occ [ESC, CHR 0x03] p2 0"
  shows "found_track fmt max_chars (write_frame p1 p2 p3) raw 3 =
           Some (if raw then raw_track 3 p3 else text_track fmt max_chars 3 p3)"
proof -
  let ?F = "write_frame p1 p2 p3"
  let ?pre = "[ESC, CHR ''s'', ESC, CHR 0x01] @ p1 @ [FS, ESC, CHR 0x02] @ p2 @ [FS, ESC, CHR 0x03]"
  let ?rest = "[CHR ''?'', FS]"
  have F: "?F = ?pre @ p3 @ FS # ?rest"
    by (simp add: write_frame_unfold)
  have a: "find_aux [ESC, CHR 0x03] (p2 @ FS # ESC # CHR 0x03 # p3 @ FS # ?rest) j
          = Some (Suc (j + length p2))" for j
    using find_aux_skip_payload[OF assms(3) chars_neq(8), of "ESC # CHR 0x03 # p3 @ FS # ?rest" j]
    by (simp add: chars_neq)
  have "find_aux [ESC, CHR 0x03]
          (p1 @ FS # ESC # CHR 0x02 # p2 @ FS # ESC # CHR 0x03 # p3 @ FS # ?rest) i
          = Some (Suc (Suc (Suc (Suc (i + length p1))) + length p2))" for i
    using find_aux_skip_payload[OF assms(2) chars_neq(8),
        of "ESC # CHR 0x02 # p2 @ FS # ESC # CHR 0x03 # p3 @ FS # ?rest" i]
    by (simp add: chars_neq a)
  then have m: "bytes_find ?F [ESC, char_of (3::nat)] 0 = Some (8 + length p1 + length p2)"
    by (simp add: write_frame_unfold bytes_find_def char_of_track chars_neq)
  have l: "length ?pre = 8 + length p1 + length p2 + 2" by simp
  show ?thesis
    unfolding F
    by (rule found_track_at[OF m[unfolded F] segment_in_frame(1)[OF l assms(1)]
          segment_in_frame(2)[OF l assms(1)]])
qed

lemma parse_raw_frame:
  assumes "raw_payload_ok p1 p2 p3"
  shows "parse_raw_response fmt max_chars (write_frame p1 p2 p3) =
           Inr [raw_track 1 p1, raw_track 2 p2, raw_track 3 p3]"
proof -
  from assms have a: "FS \<notin> set p1" "FS \<notin> set p2" "FS \<notin> set p3"
    "no_occ [ESC, CHR 0x02] p1 0" "no_occ [ESC, CHR 0x03] p1 0" "no_occ [ESC, CHR 0x03] p2 0"
    by (simp_all add: raw_payload_ok_def)
  show ?thesis
    unfolding parse_raw_response_eq frame_track1[OF a(1)] frame_track2[OF a(2) a(4)]
      frame_track3[OF a(3) a(5) a(6)] opt_list_def
    by simp
qed

lemma parse_iso_frame:
  assumes "raw_payload_ok p1 p2 p3"
  shows "parse_iso_response fmt max_chars (write_frame p1 p2 p3) =
           Inr [text_track fmt max_chars 1 p1, text_track fmt max_chars 2 p2,
                text_track fmt max_chars 3 p3]"
proof -
  from assms have a: "FS \<notin> set p1" "FS \<notin> set p2" "FS \<notin> set p3"
    "no_occ [ESC, CHR 0x02] p1 0" "no_occ [ESC, CHR 0x03] p1 0" "no_occ [ESC, CHR 0x03] p2 0"
    by (simp_all add: raw_payload_ok_def)
  show ?thesis
    unfolding parse_iso_response_eq frame_track1[OF a(1)] frame_track2[OF a(2) a(4)]
      frame_track3[OF a(3) a(5) a(6)] opt_list_def
    by simp
qed

lemma decode_encode:
  "list_all (\<lambda>c. c < 128) t \<Longrightarrow> decode_ascii_replace (map char_of t) = t"
  by (induction t) (simp_all add: decode_ascii_replace_def)

lemma py_strip_id:
  assumes "t \<noteq> [] \<longrightarrow> \<not> py_isspace (hd t) \<and> \<not> py_isspace (last t)"
  shows "py_strip t = t"
proof (cases "t = []")
  case True
  then show ?thesis by (simp add: py_strip_def)
next
  case False
  with assms have h: "\<not> py_isspace (hd t)" and l: "\<not> py_isspace (last t)" by auto
  from h False have a: "dropWhile py_isspace t = t" by (cases t) auto
  from l False have "\<not> py_isspace (hd (rev t))" by (simp add: hd_rev)
  with False have "dropWhile py_isspace (rev t) = rev t" by (cases "rev t") auto
  with a show ?thesis by (simp add: py_strip_def)
qed

lemma printable_isspace: "32 \<le> c \<Longrightarrow> c < 128 \<Longrightarrow> py_isspace c = (c = 32)"
  by (auto simp: py_isspace_def)

lemma clean_ok:
  assumes "iso_text_ok t"
  shows "clean_track_data t n = t"
proof -
  from assms have p: "\<And>c. c \<in> set t \<Longrightarrow> 32 \<le> c \<and> c < 128"
    and e: "t \<noteq> [] \<longrightarrow> hd t \<noteq> 32 \<and> last t \<noteq> 32"
    by (auto simp: iso_text_ok_def list_all_iff)
  have f1: "filter (\<lambda>c. 32 \<le> c \<or> c = 9) t = t" using p by (auto simp: filter_id_conv)
  have f2: "filter (\<lambda>c. c \<noteq> 27) t = t" using p by (fastforce simp: filter_id_conv)
  have "t \<noteq> [] \<longrightarrow> \<not> py_isspace (hd t) \<and> \<not> py_isspace (last t)"
    using p e printable_isspace by (metis hd_in_set last_in_set)
  then have "py_strip t = t" by (rule py_strip_id)
  then show ?thesis by (simp add: clean_track_data_def f1 f2)
qed

lemma text_payload_ok:
  fixes t :: str
  assumes "list_all (\<lambda>c. 32 \<le> c \<and> c < 128) t"
  shows "FS \<notin> set (map char_of t)" and "ESC \<notin> set (map char_of t)"
proof -
  have "of_char (char_of c :: char) = c" if "c \<in> set t" for c :: nat
    using that assms by (auto simp: list_all_iff)
  then have "32 \<le> (of_char b :: nat)" if "b \<in> set (map char_of t)" for b
    using that assms by (auto simp: list_all_iff simp del: of_char_of)
  then show "FS \<notin> set (map char_of t)" and "ESC \<notin> set (map char_of t)"
    by (fastforce simp: FS_def ESC_def)+
qed

lemma text_raw_payload_ok:
  fixes t1 t2 t3 :: str
  assumes "list_all (\<lambda>c. 32 \<le> c \<and> c < 128) t1" "list_all (\<lambda>c. 32 \<le> c \<and> c < 128) t2"
    "list_all (\<lambda>c. 32 \<le> c \<and> c < 128) t3"
  shows "raw_payload_ok (map char_of t1) (map char_of t2) (map char_of t3)"
  unfolding raw_payload_ok_def
  using text_payload_ok[OF assms(1)] text_payload_ok[OF assms(2)] text_payload_ok[OF assms(3)]
  by (simp add: no_occ_absent)

lemma upper_text_ok:
  assumes "iso_text_ok t"
  shows "iso_text_ok (map ascii_upper t)"
proof -
  have a: "32 \<le> ascii_upper c \<and> ascii_upper c < 128" if "32 \<le> c \<and> c < 128" for c
    using that by (auto simp: ascii_upper_def)
  have b: "ascii_upper c \<noteq> 32" if "c \<noteq> 32" for c
    using that by (auto simp: ascii_upper_def)
  show ?thesis
    using assms a b by (auto simp: iso_text_ok_def list_all_iff hd_map last_map)
qed

lemma text_track_data:
  assumes "iso_text_ok t"
  shows "data (text_track fmt max_chars n (map char_of t)) = t"
proof -
  from assms have "list_all (\<lambda>c. c < 128) t" by (auto simp: iso_text_ok_def list_all_iff)
  then show ?thesis by (simp add: text_track_fields decode_encode clean_ok[OF assms])
qed

lemma valid_text_printable:
  assumes "validate_track_data ISO max_chars t n"
  shows "list_all (\<lambda>c. 32 \<le> c \<and> c < 128) t"
proof -
  have "set (str_of ''0123456789:;<=>?'') \<union> set (str_of ''%?;'') \<subseteq> {c. 32 \<le> c \<and> c < 128}"
    by (simp add: str_of_def)
  then show ?thesis
    using assms unfolding validate_track_data_def TRACK2_CHARSET_def TRACK3_CHARSET_def list_all_iff
    by (auto split: if_splits)
qed

text \<open>
  C1, as amended. ISO mode: when each track's text is printable ASCII (as every text the
  validator accepts is) and neither starts nor ends with a space, the encoder succeeds and
  the text decoder returns three entries whose \<open>data\<close> are the texts, track 1 in upper case
  (an omitted track gives the empty text). RAW mode: when no track holds the field
  separator \<open>0x1C\<close> and no track holds the start marker of a later track, the raw decoder
  returns three entries whose \<open>raw_data\<close> are the tracks' bytes.
\<close>

theorem write_read_roundtrip:
  "(iso_text_ok (track_or_empty t1) \<and> iso_text_ok (track_or_empty t2) \<and> iso_text_ok (track_or_empty t3)
      \<longrightarrow> (\<exists>frame a b c.
             build_iso_write_data U t1 t2 t3 = Inr frame
             \<and> parse_iso_response fmt max_chars frame = Inr [a, b, c]
             \<and> map data [a, b, c] =
                 [map ascii_upper (track_or_empty t1), track_or_empty t2, track_or_empty t3]))
   \<and> (raw_payload_ok (track_or_empty r1) (track_or_empty r2) (track_or_empty r3)
      \<longrightarrow> (\<exists>a b c.
             parse_raw_response fmt max_chars (build_raw_write_data r1 r2 r3) = Inr [a, b, c]
             \<and> map raw_data [a, b, c] = [track_or_empty r1, track_or_empty r2, track_or_empty r3]))"
proof (intro conjI impI)
  assume ok: "iso_text_ok (track_or_empty t1) \<and> iso_text_ok (track_or_empty t2)
                \<and> iso_text_ok (track_or_empty t3)"
  let ?u1 = "map ascii_upper (track_or_empty t1)"
  let ?u2 = "track_or_empty t2"
  let ?u3 = "track_or_empty t3"
  from ok have o: "iso_text_ok ?u1" "iso_text_ok ?u2" "iso_text_ok ?u3"
    by (simp_all add: upper_text_ok)
  then have p: "list_all (\<lambda>c. 32 \<le> c \<and> c < 128) ?u1" "list_all (\<lambda>c. 32 \<le> c \<and> c < 128) ?u2"
    "list_all (\<lambda>c. 32 \<le> c \<and> c < 128) ?u3"
    by (simp_all add: iso_text_ok_def)
  from ok have "list_all (\<lambda>c. c < 128) (track_or_empty t1 @ track_or_empty t2 @ track_or_empty t3)"
    by (auto simp: iso_text_ok_def list_all_iff)
  then have f: "build_iso_write_data U t1 t2 t3 =
                  Inr (write_frame (map char_of ?u1) (map char_of ?u2) (map char_of ?u3))"
    by (rule build_iso_write_data_ascii)
  have pr: "parse_iso_response fmt max_chars (write_frame (map char_of ?u1) (map char_of ?u2) (map char_of ?u3))
          = Inr [text_track fmt max_chars 1 (map char_of ?u1), text_track fmt max_chars 2 (map char_of ?u2),
                 text_track fmt max_chars 3 (map char_of ?u3)]"
    by (rule parse_iso_frame[OF text_raw_payload_ok[OF p]])
  have dt: "map data [text_track fmt max_chars 1 (map char_of ?u1),
      text_track fmt max_chars 2 (map char_of ?u2), text_track fmt max_chars 3 (map char_of ?u3)]
      = [?u1, ?u2, ?u3]"
    by (simp only: list.map text_track_data[OF o(1)] text_track_data[OF o(2)]
        text_track_data[OF o(3)])
  show "\<exists>frame a b c.
             build_iso_write_data U t1 t2 t3 = Inr frame
             \<and> parse_iso_response fmt max_chars frame = Inr [a, b, c]
             \<and> map data [a, b, c] =
                 [map ascii_upper (track_or_empty t1), track_or_empty t2, track_or_empty t3]"
    by (intro exI conjI) (rule f, rule pr, rule dt)
next
  assume ok: "raw_payload_ok (track_or_empty r1) (track_or_empty r2) (track_or_empty r3)"
  have dt: "map raw_data [raw_track 1 (track_or_empty r1), raw_track 2 (track_or_empty r2),
          raw_track 3 (track_or_empty r3)] = [track_or_empty r1, track_or_empty r2, track_or_empty r3]"
    by (simp add: raw_track_fields)
  show "\<exists>a b c.
             parse_raw_response fmt max_chars (build_raw_write_data r1 r2 r3) = Inr [a, b, c]
             \<and> map raw_data [a, b, c] = [track_or_empty r1, track_or_empty r2, track_or_empty r3]"
    unfolding build_raw_write_data_frame
    by (intro exI conjI) (rule parse_raw_frame[OF ok], rule dt)
qed

theorem write_read_roundtrip_witness:
  "iso_text_ok (track_or_empty (Some (str_of ''Ab c'')))
   \<and> iso_text_ok (track_or_empty (Some (str_of '';12=3?'')))
   \<and> iso_text_ok (track_or_empty (None :: str option))
   \<and> raw_payload_ok (track_or_empty (Some [CHR 0x1A, CHR 0x2B, CHR 0x3C])) (track_or_empty None)
        (track_or_empty (Some [CHR 0x4D, ESC, CHR 0x01]))
   \<and> (\<exists>frame a b c.
         build_iso_write_data (\<lambda>c. [c]) (Some (str_of ''Ab c'')) (Some (str_of '';12=3?'')) None
           = Inr frame
         \<and> parse_iso_response ISO (\<lambda>n. 79) frame = Inr [a, b, c]
         \<and> map data [a, b, c] = [str_of ''AB C'', str_of '';12=3?'', []])
   \<and> (\<exists>a b c.
         parse_raw_response ISO (\<lambda>n. 79)
           (build_raw_write_data (Some [CHR 0x1A, CHR 0x2B, CHR 0x3C]) None
              (Some [CHR 0x4D, ESC, CHR 0x01])) = Inr [a, b, c]
         \<and> map raw_data [a, b, c] = [[CHR 0x1A, CHR 0x2B, CHR 0x3C], [], [CHR 0x4D, ESC, CHR 0x01]])"
proof -
  define t1 where "t1 = Some (str_of ''Ab c'')"
  define t2 where "t2 = Some (str_of '';12=3?'')"
  define t3 where "t3 = (None :: str option)"
  define r1 where "r1 = Some [CHR 0x1A, CHR 0x2B, CHR 0x3C]"
  define r2 where "r2 = (None :: bytes option)"
  define r3 where "r3 = Some [CHR 0x4D, ESC, CHR 0x01]"
  have h: "iso_text_ok (track_or_empty t1) \<and> iso_text_ok (track_or_empty t2)
             \<and> iso_text_ok (track_or_empty t3)"
    by (simp add: t1_def t2_def t3_def iso_text_ok_def track_or_empty_def str_of_def)
  have g: "raw_payload_ok (track_or_empty r1) (track_or_empty r2) (track_or_empty r3)"
    by (simp add: r1_def r2_def r3_def raw_payload_ok_def track_or_empty_def
        bytes_find_eq_None[symmetric] bytes_find_def ESC_def FS_def)
  note t = write_read_roundtrip[of t1 t2 t3 "\<lambda>c. [c]" ISO "\<lambda>n. 79" r1 r2 r3]
  have u: "map ascii_upper (track_or_empty t1) = str_of ''AB C''" "track_or_empty t2 = str_of '';12=3?''"
    "track_or_empty t3 = []"
    by (simp_all add: t1_def t2_def t3_def track_or_empty_def str_of_def ascii_upper_def)
  have v: "track_or_empty r1 = [CHR 0x1A, CHR 0x2B, CHR 0x3C]" "track_or_empty r2 = []"
    "track_or_empty r3 = [CHR 0x4D, ESC, CHR 0x01]"
    by (simp_all add: r1_def r2_def r3_def track_or_empty_def)
  from mp[OF t[THEN conjunct1] h] have c1: "\<exists>frame a b c.
         build_iso_write_data (\<lambda>c. [c]) t1 t2 t3 = Inr frame
         \<and> parse_iso_response ISO (\<lambda>n. 79) frame = Inr [a, b, c]
         \<and> map data [a, b, c] = [str_of ''AB C'', str_of '';12=3?'', []]"
    unfolding u .
  from mp[OF t[THEN conjunct2] g] have c2: "\<exists>a b c.
         parse_raw_response ISO (\<lambda>n. 79) (build_raw_write_data r1 r2 r3) = Inr [a, b, c]
         \<and> map raw_data [a, b, c] = [[CHR 0x1A, CHR 0x2B, CHR 0x3C], [], [CHR 0x4D, ESC, CHR 0x01]]"
    unfolding v .
  note h1 = h[THEN conjunct1] and h2 = h[THEN conjunct2, THEN conjunct1]
    and h3 = h[THEN conjunct2, THEN conjunct2]
  from h1 h2 h3 g c1 c2 show ?thesis
    unfolding t1_def t2_def t3_def r1_def r2_def r3_def by (intro conjI) assumption+
qed

lemma found_track_eval:
  assumes "bytes_find F [ESC, char_of n] 0 = Some i"
    and "bytes_find F [FS] (i + 2) = Some e"
  shows "found_track fmt max_chars F raw n =
           Some (if raw then raw_track n (py_slice F (i + 2) e)
                 else text_track fmt max_chars n (py_slice F (i + 2) e))"
  by (rule found_track_at[OF assms refl])

text \<open>
  The claim as stated fails in both modes. RAW: the one-byte track \<open>0x1C\<close> comes back empty,
  because the frame has no escaping and the segment ends at the first field separator. ISO:
  the text \<open>" A"\<close>, which the validator accepts for track 1, comes back as \<open>"A"\<close>, because
  \<open>_clean_track_data\<close> strips white space.
\<close>

theorem roundtrip_counterexample:
  "parse_raw_response ISO (\<lambda>n. 79) (build_raw_write_data (Some [FS]) None None) =
     Inr [\<lparr>track_number = 1, data = [], raw_data = [], is_valid = False, format = RAW,
           error_message = None\<rparr>,
          \<lparr>track_number = 2, data = [], raw_data = [], is_valid = False, format = RAW,
           error_message = None\<rparr>,
          \<lparr>track_number = 3, data = [], raw_data = [], is_valid = False, format = RAW,
           error_message = None\<rparr>]
   \<and> validate_track_data ISO (\<lambda>n. 79) (str_of '' A'') 1
   \<and> build_iso_write_data (\<lambda>c. [c]) (Some (str_of '' A'')) None None =
       Inr [ESC, CHR ''s'', ESC, CHR 0x01, CHR '' '', CHR ''A'', FS, ESC, CHR 0x02, FS,
            ESC, CHR 0x03, FS, CHR ''?'', FS]
   \<and> parse_iso_response ISO (\<lambda>n. 79)
         [ESC, CHR ''s'', ESC, CHR 0x01, CHR '' '', CHR ''A'', FS, ESC, CHR 0x02, FS,
          ESC, CHR 0x03, FS, CHR ''?'', FS] =
     Inr [\<lparr>track_number = 1, data = str_of ''A'', raw_data = [CHR '' '', CHR ''A''],
           is_valid = True, format = ISO, error_message = None\<rparr>,
          \<lparr>track_number = 2, data = [], raw_data = [], is_valid = False, format = ISO,
           error_message = Some ''Invalid characters in track data''\<rparr>,
          \<lparr>track_number = 3, data = [], raw_data = [], is_valid = False, format = ISO,
           error_message = Some ''Invalid characters in track data''\<rparr>]"
proof (intro conjI)
  define F where "F = [ESC, CHR ''s'', ESC, CHR 0x01, FS, FS, ESC, CHR 0x02, FS,
          ESC, CHR 0x03, FS, CHR ''?'', FS]"
  have b: "build_raw_write_data (Some [FS]) None None = F"
    by (simp add: build_raw_write_data_def F_def)
  have m: "bytes_find F [ESC, char_of (1::nat)] 0 = Some 2"
    "bytes_find F [ESC, char_of (2::nat)] 0 = Some 6"
    "bytes_find F [ESC, char_of (3::nat)] 0 = Some 9"
    by (simp_all add: F_def bytes_find_def char_of_track chars_neq)
  have e: "bytes_find F [FS] (2 + 2) = Some 4" "bytes_find F [FS] (6 + 2) = Some 8"
    "bytes_find F [FS] (9 + 2) = Some 11"
    by (simp_all add: F_def bytes_find_def chars_neq)
  have s: "py_slice F (2 + 2) 4 = []" "py_slice F (6 + 2) 8 = []" "py_slice F (9 + 2) 11 = []"
    by (simp_all add: py_slice_def)
  show "parse_raw_response ISO (\<lambda>n. 79) (build_raw_write_data (Some [FS]) None None) =
     Inr [\<lparr>track_number = 1, data = [], raw_data = [], is_valid = False, format = RAW,
           error_message = None\<rparr>,
          \<lparr>track_number = 2, data = [], raw_data = [], is_valid = False, format = RAW,
           error_message = None\<rparr>,
          \<lparr>track_number = 3, data = [], raw_data = [], is_valid = False, format = RAW,
           error_message = None\<rparr>]"
    unfolding b parse_raw_response_eq found_track_eval[OF m(1) e(1)] found_track_eval[OF m(2) e(2)]
      found_track_eval[OF m(3) e(3)] s
    by (simp add: opt_list_def raw_track_def bytes_hex_def)
next
  show "validate_track_data ISO (\<lambda>n. 79) (str_of '' A'') 1"
    by (simp add: validate_track_data_def str_of_def)
next
  show "build_iso_write_data (\<lambda>c. [c]) (Some (str_of '' A'')) None None =
       Inr [ESC, CHR ''s'', ESC, CHR 0x01, CHR '' '', CHR ''A'', FS, ESC, CHR 0x02, FS,
            ESC, CHR 0x03, FS, CHR ''?'', FS]"
    by (simp add: build_iso_write_data_def str_of_def str_upper_def ascii_upper_def
        encode_ascii_def char_of_eq)
next
  define G where "G = [ESC, CHR ''s'', ESC, CHR 0x01, CHR '' '', CHR ''A'', FS, ESC, CHR 0x02, FS,
          ESC, CHR 0x03, FS, CHR ''?'', FS]"
  have m: "bytes_find G [ESC, char_of (1::nat)] 0 = Some 2"
    "bytes_find G [ESC, char_of (2::nat)] 0 = Some 7"
    "bytes_find G [ESC, char_of (3::nat)] 0 = Some 10"
    by (simp_all add: G_def bytes_find_def char_of_track ESC_def FS_def)
  have e: "bytes_find G [FS] (2 + 2) = Some 6" "bytes_find G [FS] (7 + 2) = Some 9"
    "bytes_find G [FS] (10 + 2) = Some 12"
    by (simp_all add: G_def bytes_find_def FS_def)
  have s: "py_slice G (2 + 2) 6 = [CHR '' '', CHR ''A'']" "py_slice G (7 + 2) 9 = []"
    "py_slice G (10 + 2) 12 = []"
    by (simp_all add: py_slice_def G_def)
  have t1: "text_track ISO (\<lambda>n. 79) (Suc 0) [CHR '' '', CHR ''A''] =
      \<lparr>track_number = Suc 0, data = str_of ''A'', raw_data = [CHR '' '', CHR ''A''],
           is_valid = True, format = ISO, error_message = None\<rparr>"
    by (simp add: text_track_def decode_ascii_replace_def clean_track_data_def py_strip_def
        py_isspace_def validate_track_data_def str_of_def)
  have t2: "text_track ISO (\<lambda>n. 79) n [] =
      \<lparr>track_number = n, data = [], raw_data = [], is_valid = False, format = ISO,
           error_message = Some ''Invalid characters in track data''\<rparr>" for n
    by (simp add: text_track_def clean_empty validate_track_data_def)
  show "parse_iso_response ISO (\<lambda>n. 79)
         [ESC, CHR ''s'', ESC, CHR 0x01, CHR '' '', CHR ''A'', FS, ESC, CHR 0x02, FS,
          ESC, CHR 0x03, FS, CHR ''?'', FS] =
     Inr [\<lparr>track_number = 1, data = str_of ''A'', raw_data = [CHR '' '', CHR ''A''],
           is_valid = True, format = ISO, error_message = None\<rparr>,
          \<lparr>track_number = 2, data = [], raw_data = [], is_valid = False, format = ISO,
           error_message = Some ''Invalid characters in track data''\<rparr>,
          \<lparr>track_number = 3, data = [], raw_data = [], is_valid = False, format = ISO,
           error_message = Some ''Invalid characters in track data''\<rparr>]"
    unfolding G_def[symmetric] parse_iso_response_eq found_track_eval[OF m(1) e(1)]
      found_track_eval[OF m(2) e(2)] found_track_eval[OF m(3) e(3)] s
    by (simp add: opt_list_def t1 t2)
qed

subsection \<open>Disconnecting and sending\<close>

lemma not_connected_send:
  "\<not> is_connected s \<Longrightarrow> send_command env report_size s command payload_data = ((False, []), s)"
  by (simp add: send_command_def)

lemma not_connected_receive:
  "\<not> is_connected s \<Longrightarrow> receive_response env s timeout_ms = Some ((False, []), s)"
  by (simp add: receive_response_def)

lemma disconnect_success:
  assumes "disconnect env s = ((True, msg), s')"
  shows "connected s" "device s \<noteq> None" "close_error env = None"
    "s' = s\<lparr>device := None, connected := False, device_info := None,
            io_log := io_log s @ DevClose # (if on_status_change s = None then [] else [Notified False])\<rparr>"
  using assms
  by (auto simp: disconnect_def notify_status_change_def log_event_def Let_def
      split: if_splits option.splits sum.splits)

text \<open>
  C8. A successful \<open>disconnect()\<close> closes the handle, clears the handle, the connected flag and
  the cached identity, and calls the status callback with \<open>False\<close>; in the state it leaves,
  \<open>send_command\<close> and \<open>receive_response\<close> fail at the \<open>is_connected\<close> guard with
  \<open>(False, b'')\<close> and leave the state, and so the log of device calls, as it is. With no
  open handle \<open>disconnect()\<close> fails with "Not connected" and changes nothing.
\<close>

theorem disconnect_then_not_connected:
  "(disconnect env s = ((True, msg), s') \<longrightarrow>
      device s' = None \<and> \<not> connected s' \<and> device_info s' = None
      \<and> io_log s' = io_log s @ DevClose # (if on_status_change s = None then [] else [Notified False])
      \<and> send_command env2 report_size s' command payload_data = ((False, []), s')
      \<and> receive_response env2 s' timeout_ms = Some ((False, []), s'))
   \<and> (\<not> connected s \<or> device s = None \<longrightarrow> disconnect env s = ((False, ''Not connected''), s))"
proof (intro conjI impI)
  assume d: "disconnect env s = ((True, msg), s')"
  note e = disconnect_success(4)[OF d]
  show "device s' = None" "\<not> connected s'" "device_info s' = None"
    "io_log s' = io_log s @ DevClose # (if on_status_change s = None then [] else [Notified False])"
    by (simp_all add: e)
  then have n: "\<not> is_connected s'" by (simp add: is_connected_def)
  show "send_command env2 report_size s' command payload_data = ((False, []), s')"
    by (rule not_connected_send[OF n])
  show "receive_response env2 s' timeout_ms = Some ((False, []), s')"
    by (rule not_connected_receive[OF n])
next
  assume "\<not> connected s \<or> device s = None"
  then show "disconnect env s = ((False, ''Not connected''), s)"
    by (auto simp: disconnect_def)
qed

theorem disconnect_then_not_connected_witness:
  "disconnect \<lparr>close_error = None, write_result = (\<lambda>r. Some (int (length r))),
                read_result = (\<lambda>n. Some []), expired = (\<lambda>t n. False)\<rparr>
     \<lparr>device = Some Hid, connected = True, device_info = None,
      on_status_change = Some (\<lambda>c. None), io_log = []\<rparr>
   = ((True, ''Disconnected successfully''),
      \<lparr>device = None, connected = False, device_info = None,
       on_status_change = Some (\<lambda>c. None), io_log = [DevClose, Notified False]\<rparr>)
   \<and> send_command \<lparr>close_error = None, write_result = (\<lambda>r. Some (int (length r))),
                read_result = (\<lambda>n. Some []), expired = (\<lambda>t n. False)\<rparr> 64
       \<lparr>device = None, connected = False, device_info = None,
        on_status_change = Some (\<lambda>c. None), io_log = [DevClose, Notified False]\<rparr>
       [ESC, CHR ''r''] []
     = ((False, []),
        \<lparr>device = None, connected = False, device_info = None,
         on_status_change = Some (\<lambda>c. None), io_log = [DevClose, Notified False]\<rparr>)
   \<and> receive_response \<lparr>close_error = None, write_result = (\<lambda>r. Some (int (length r))),
                read_result = (\<lambda>n. Some []), expired = (\<lambda>t n. False)\<rparr>
       \<lparr>device = None, connected = False, device_info = None,
        on_status_change = Some (\<lambda>c. None), io_log = [DevClose, Notified False]\<rparr> 1000
     = Some ((False, []),
        \<lparr>device = None, connected = False, device_info = None,
         on_status_change = Some (\<lambda>c. None), io_log = [DevClose, Notified False]\<rparr>)
   \<and> disconnect \<lparr>close_error = None, write_result = (\<lambda>r. Some (int (length r))),
                read_result = (\<lambda>n. Some []), expired = (\<lambda>t n. False)\<rparr>
       \<lparr>device = None, connected = False, device_info = None,
        on_status_change = Some (\<lambda>c. None), io_log = [DevClose, Notified False]\<rparr>
     = ((False, ''Not connected''),
        \<lparr>device = None, connected = False, device_info = None,
         on_status_change = Some (\<lambda>c. None), io_log = [DevClose, Notified False]\<rparr>)"
proof -
  define env where "env = \<lparr>close_error = None, write_result = (\<lambda>r. Some (int (length r))),
                read_result = (\<lambda>n. Some []), expired = (\<lambda>t n. False)\<rparr>"
  define s0 where "s0 = \<lparr>device = Some Hid, connected = True, device_info = (None :: DeviceInfo option),
      on_status_change = Some (\<lambda>c. None), io_log = []\<rparr>"
  define s1 where "s1 = \<lparr>device = None, connected = False, device_info = (None :: DeviceInfo option),
       on_status_change = Some (\<lambda>c. None), io_log = [DevClose, Notified False]\<rparr>"
  have d: "disconnect env s0 = ((True, ''Disconnected successfully''), s1)"
    by (simp add: disconnect_def env_def s0_def s1_def notify_status_change_def log_event_def)
  have n: "\<not> connected s1 \<or> device s1 = None" by (simp add: s1_def)
  note t = disconnect_then_not_connected[of env s0 "''Disconnected successfully''" s1 env 64
      "[ESC, CHR ''r'']" "[]" 1000]
  note u = disconnect_then_not_connected[of env s1 "''x''" s1 env 64 "[]" "[]" 0]
  from mp[OF t[THEN conjunct1] d]
  have a: "send_command env 64 s1 [ESC, CHR ''r''] [] = ((False, []), s1)"
    and b: "receive_response env s1 1000 = Some ((False, []), s1)"
    by blast+
  from mp[OF u[THEN conjunct2] n] have c: "disconnect env s1 = ((False, ''Not connected''), s1)" .
  from d a b c show ?thesis
    unfolding env_def s0_def s1_def by (intro conjI) assumption+
qed

lemma send_command_connected:
  assumes "is_connected s"
  shows "send_command env report_size s command payload_data =
     (let report = CHR 0x00 # (command @ payload_data)
                   @ replicate (report_size - Suc (length (command @ payload_data))) (CHR 0x00)
      in ((case write_result env report of None \<Rightarrow> False | Some n \<Rightarrow> 0 \<le> n, []),
          s\<lparr>io_log := io_log s @ [DevWrite report]\<rparr>))"
  using assms
  by (auto simp: send_command_def Let_def log_event_def split: option.splits)

text \<open>
  C2, as amended. On a connected device \<open>send_command\<close> never refuses a payload for its
  size: it hands exactly one report to \<open>write\<close> and succeeds unless \<open>write\<close> raises or returns
  a negative count. When the payload fits (its length is at most the report size minus one)
  the report is \<open>0x00\<close>, the payload and zero padding up to the report size; a longer payload
  is written as \<open>0x00\<close> and the payload, without padding, longer than the report size.
\<close>

theorem send_command_report:
  assumes "is_connected s"
  shows "\<exists>report s'.
     send_command env report_size s command payload_data =
       ((case write_result env report of None \<Rightarrow> False | Some n \<Rightarrow> 0 \<le> n, []), s')
     \<and> io_log s' = io_log s @ [DevWrite report]
     \<and> (length (command @ payload_data) \<le> report_size - 1 \<and> 0 < report_size \<longrightarrow>
          length report = report_size
          \<and> report = CHR 0x00 # (command @ payload_data)
                     @ replicate (report_size - 1 - length (command @ payload_data)) (CHR 0x00))
     \<and> (report_size - 1 < length (command @ payload_data) \<longrightarrow>
          report = CHR 0x00 # (command @ payload_data))"
proof -
  define report where "report = CHR 0x00 # (command @ payload_data)
                   @ replicate (report_size - Suc (length (command @ payload_data))) (CHR 0x00)"
  define s' where "s' = s\<lparr>io_log := io_log s @ [DevWrite report]\<rparr>"
  have 1: "send_command env report_size s command payload_data =
       ((case write_result env report of None \<Rightarrow> False | Some n \<Rightarrow> 0 \<le> n, []), s')"
    by (simp add: send_command_connected[OF assms] report_def s'_def Let_def)
  have 2: "io_log s' = io_log s @ [DevWrite report]" by (simp add: s'_def)
  have 3: "length (command @ payload_data) \<le> report_size - 1 \<and> 0 < report_size \<longrightarrow>
          length report = report_size
          \<and> report = CHR 0x00 # (command @ payload_data)
                     @ replicate (report_size - 1 - length (command @ payload_data)) (CHR 0x00)"
    by (auto simp: report_def)
  have 4: "report_size - 1 < length (command @ payload_data) \<longrightarrow>
          report = CHR 0x00 # (command @ payload_data)"
    by (auto simp: report_def)
  from 1 2 3 4 show ?thesis by blast
qed

theorem send_command_report_witness:
  "is_connected \<lparr>device = Some Hid, connected = True, device_info = None,
                 on_status_change = None, io_log = []\<rparr>
   \<and> (\<exists>report s'.
        send_command \<lparr>close_error = None, write_result = (\<lambda>r. Some (int (length r))),
                       read_result = (\<lambda>n. Some []), expired = (\<lambda>t n. False)\<rparr> 8
          \<lparr>device = Some Hid, connected = True, device_info = None,
           on_status_change = None, io_log = []\<rparr> [ESC, CHR ''r''] []
          = ((True, []), s')
        \<and> io_log s' = [DevWrite report]
        \<and> length report = 8
        \<and> report = [CHR 0x00, ESC, CHR ''r'', CHR 0x00, CHR 0x00, CHR 0x00, CHR 0x00, CHR 0x00])"
proof -
  define env where "env = \<lparr>close_error = None, write_result = (\<lambda>r. Some (int (length r))),
                read_result = (\<lambda>n. Some []), expired = (\<lambda>t n. False)\<rparr>"
  define s0 where "s0 = \<lparr>device = Some Hid, connected = True, device_info = (None :: DeviceInfo option),
      on_status_change = None, io_log = []\<rparr>"
  have h: "is_connected s0" by (simp add: is_connected_def s0_def)
  from send_command_report[OF h, of env 8 "[ESC, CHR ''r'']" "[]"]
  obtain report s' where
    1: "send_command env 8 s0 [ESC, CHR ''r''] [] =
       ((case write_result env report of None \<Rightarrow> False | Some n \<Rightarrow> 0 \<le> n, []), s')"
    and 2: "io_log s' = io_log s0 @ [DevWrite report]"
    and 3: "length ([ESC, CHR ''r''] @ []) \<le> 8 - 1 \<and> (0::nat) < 8 \<longrightarrow>
          length report = 8
          \<and> report = CHR 0x00 # ([ESC, CHR ''r''] @ [])
                     @ replicate (8 - 1 - length ([ESC, CHR ''r''] @ [])) (CHR 0x00)"
    by blast
  have l: "length ([ESC, CHR ''r''] @ []) \<le> 8 - 1 \<and> (0::nat) < 8" by simp
  from mp[OF 3 l] have 4: "length report = 8"
    and 5: "report = [CHR 0x00, ESC, CHR ''r'', CHR 0x00, CHR 0x00, CHR 0x00, CHR 0x00, CHR 0x00]"
    by (simp_all add: numeral_eq_Suc)
  have 6: "send_command env 8 s0 [ESC, CHR ''r''] [] = ((True, []), s')"
    using 1 by (simp add: env_def)
  have 7: "io_log s' = [DevWrite report]" using 2 by (simp add: s0_def)
  from h 6 7 4 5 show ?thesis unfolding env_def s0_def by blast
qed

text \<open>
  The claim as stated fails: with a report size of 64, a payload of 64 bytes is written as a
  report of 65 bytes and the call succeeds.
\<close>

theorem send_command_too_large_counterexample:
  "send_command \<lparr>close_error = None, write_result = (\<lambda>r. Some (int (length r))),
                  read_result = (\<lambda>n. Some []), expired = (\<lambda>t n. False)\<rparr> 64
     \<lparr>device = Some Hid, connected = True, device_info = None,
      on_status_change = None, io_log = []\<rparr> (replicate 64 (CHR ''A'')) []
   = ((True, []),
      \<lparr>device = Some Hid, connected = True, device_info = None,
       on_status_change = None, io_log = [DevWrite (CHR 0x00 # replicate 64 (CHR ''A''))]\<rparr>)
   \<and> 64 - 1 < length (replicate 64 (CHR ''A'') @ [])
   \<and> length (CHR 0x00 # replicate 64 (CHR ''A'')) = 65"
  by (simp add: send_command_def is_connected_def log_event_def Let_def)

subsection \<open>Receiving\<close>

lemma reads_upto_Suc:
  "reads_upto env (Suc n) =
     reads_upto env n @ (case read_result env n of None \<Rightarrow> [] | Some d \<Rightarrow> d)"
  by (simp add: reads_upto_def)

lemma reads_upto_0: "reads_upto env 0 = []"
  by (simp add: reads_upto_def)

lemma receive_loop_step:
  assumes "keeps_polling env t n"
  shows "receive_loop env t n (reads_upto env n) = receive_loop env t (Suc n) (reads_upto env (Suc n))"
proof -
  from assms obtain d where e: "\<not> expired env t n" and r: "read_result env n = Some d"
    and c: "d = [] \<or> \<not> response_complete (reads_upto env (Suc n))"
    by (auto simp: keeps_polling_def split: option.splits)
  have u: "reads_upto env (Suc n) = reads_upto env n @ d" by (simp add: reads_upto_Suc r)
  show ?thesis
  proof (cases "d = []")
    case True
    then show ?thesis using e r u by (subst receive_loop.simps) simp
  next
    case False
    with c have "\<not> response_complete (reads_upto env n @ d)" by (simp add: u)
    then show ?thesis using e r u False by (subst receive_loop.simps) (simp add: Let_def)
  qed
qed

lemma receive_loop_run:
  assumes "\<forall>i<k. keeps_polling env t i"
  shows "receive_loop env t 0 [] = receive_loop env t k (reads_upto env k)"
  using assms
proof (induction k)
  case 0
  then show ?case by (simp add: reads_upto_def)
next
  case (Suc k)
  then have "receive_loop env t 0 [] = receive_loop env t k (reads_upto env k)" by simp
  also have "\<dots> = receive_loop env t (Suc k) (reads_upto env (Suc k))"
    using Suc.prems by (intro receive_loop_step) simp
  finally show ?case .
qed

lemma bytes_find_mem: "bytes_find p (a # sub) 0 \<noteq> None \<Longrightarrow> a \<in> set p"
  using no_occ_absent[of a p sub] by (auto simp: bytes_find_eq_None)

lemma response_complete_nonzero:
  assumes "response_complete buf"
  shows "rstrip_zeros buf \<noteq> []"
proof -
  from assms have "bytes_find buf [ESC, CHR ''0''] 0 \<noteq> None
      \<or> bytes_find buf [ESC, CHR ''1''] 0 \<noteq> None \<or> bytes_find buf [FS] 0 \<noteq> None"
    by (simp add: response_complete_def)
  then have "ESC \<in> set buf \<or> FS \<in> set buf"
    using bytes_find_mem[of buf ESC "[CHR ''0'']"] bytes_find_mem[of buf ESC "[CHR ''1'']"]
      bytes_find_mem[of buf FS "[]"]
    by blast
  then obtain b where "b \<in> set buf" "b \<noteq> CHR 0x00" by (auto simp: ESC_def FS_def)
  then have "dropWhile (\<lambda>b. b = CHR 0x00) (rev buf) \<noteq> []"
    by (auto simp: dropWhile_eq_Nil_conv)
  then show ?thesis by (simp add: rstrip_zeros_def)
qed

lemma receive_at_expiry:
  assumes "is_connected s" "\<forall>i<k. keeps_polling env timeout_ms i" "expired env timeout_ms k"
  shows "receive_response env s timeout_ms =
           Some ((rstrip_zeros (reads_upto env k) \<noteq> [], rstrip_zeros (reads_upto env k)),
                 log_reads k s)"
proof -
  have "receive_loop env timeout_ms 0 [] = Some (Inr (reads_upto env k), k)"
    unfolding receive_loop_run[OF assms(2)] using assms(3) by (subst receive_loop.simps) simp
  then show ?thesis using assms(1) by (simp add: receive_response_def Let_def)
qed

lemma receive_at_exception:
  assumes "is_connected s" "\<forall>i<k. keeps_polling env timeout_ms i"
    "\<not> expired env timeout_ms k \<and> read_result env k = None"
  shows "receive_response env s timeout_ms = Some ((False, []), log_reads (Suc k) s)"
proof -
  have "receive_loop env timeout_ms 0 [] = Some (Inl (), Suc k)"
    unfolding receive_loop_run[OF assms(2)] using assms(3) by (subst receive_loop.simps) simp
  then show ?thesis using assms(1) by (simp add: receive_response_def)
qed

lemma receive_at_sentinel:
  assumes "is_connected s" "\<forall>i<k. keeps_polling env timeout_ms i"
    "\<not> expired env timeout_ms k \<and> read_result env k \<noteq> None \<and> read_result env k \<noteq> Some []
       \<and> response_complete (reads_upto env (Suc k))"
  shows "receive_response env s timeout_ms =
           Some ((True, rstrip_zeros (reads_upto env (Suc k))), log_reads (Suc k) s)
         \<and> rstrip_zeros (reads_upto env (Suc k)) \<noteq> []"
proof -
  from assms(3) obtain d where d: "read_result env k = Some d" "d \<noteq> []" by auto
  then have u: "reads_upto env (Suc k) = reads_upto env k @ d" by (simp add: reads_upto_Suc)
  from assms(3) have c: "response_complete (reads_upto env k @ d)" by (simp add: u)
  from assms(3) have nz: "rstrip_zeros (reads_upto env (Suc k)) \<noteq> []"
    by (simp add: response_complete_nonzero)
  have "receive_loop env timeout_ms 0 [] = Some (Inr (reads_upto env (Suc k)), Suc k)"
    unfolding receive_loop_run[OF assms(2)] using assms(3) d c u
    by (subst receive_loop.simps) (simp add: Let_def)
  then show ?thesis using assms(1) nz by (simp add: receive_response_def Let_def)
qed

text \<open>
  C3, as amended. On a connected device \<open>receive_response\<close> polls until the first iteration
  \<open>k\<close> at which the timeout test succeeds, or a read raises, or a non-empty read leaves a
  buffer of at least two bytes that holds \<open>ESC '0'\<close>, \<open>ESC '1'\<close> or \<open>FS\<close>; up to there it
  accumulates the bytes read. It returns the buffer with its trailing zero bytes stripped
  and succeeds exactly when that is not empty: a buffer that ended the loop by a sentinel
  is never empty, and at the timeout the failure \<open>(False, b'')\<close> is returned exactly when
  no non-zero byte has arrived. A read that raises gives \<open>(False, b'')\<close>.
\<close>

theorem receive_response_exit:
  assumes "is_connected s"
    and "\<forall>i<k. keeps_polling env timeout_ms i"
  shows "(expired env timeout_ms k \<longrightarrow>
            receive_response env s timeout_ms =
              Some ((rstrip_zeros (reads_upto env k) \<noteq> [], rstrip_zeros (reads_upto env k)),
                    log_reads k s))
       \<and> (\<not> expired env timeout_ms k \<and> read_result env k = None \<longrightarrow>
            receive_response env s timeout_ms = Some ((False, []), log_reads (Suc k) s))
       \<and> (\<not> expired env timeout_ms k \<and> read_result env k \<noteq> None \<and> read_result env k \<noteq> Some []
            \<and> response_complete (reads_upto env (Suc k)) \<longrightarrow>
            receive_response env s timeout_ms =
              Some ((True, rstrip_zeros (reads_upto env (Suc k))), log_reads (Suc k) s)
            \<and> rstrip_zeros (reads_upto env (Suc k)) \<noteq> [])"
  using receive_at_expiry[OF assms] receive_at_exception[OF assms] receive_at_sentinel[OF assms]
  by blast

theorem receive_response_exit_witness:
  "is_connected \<lparr>device = Some Hid, connected = True, device_info = None,
                 on_status_change = None, io_log = []\<rparr>
   \<and> keeps_polling \<lparr>close_error = None, write_result = (\<lambda>r. Some (int (length r))),
        read_result = (\<lambda>n. if n = 0 then Some [] else Some [ESC, CHR ''0'', CHR 0x00, CHR 0x00]),
        expired = (\<lambda>t n. False)\<rparr> 1000 0
   \<and> receive_response \<lparr>close_error = None, write_result = (\<lambda>r. Some (int (length r))),
        read_result = (\<lambda>n. if n = 0 then Some [] else Some [ESC, CHR ''0'', CHR 0x00, CHR 0x00]),
        expired = (\<lambda>t n. False)\<rparr>
       \<lparr>device = Some Hid, connected = True, device_info = None,
        on_status_change = None, io_log = []\<rparr> 1000
     = Some ((True, [ESC, CHR ''0'']),
             \<lparr>device = Some Hid, connected = True, device_info = None,
              on_status_change = None, io_log = [DevRead, DevRead]\<rparr>)
   \<and> receive_response \<lparr>close_error = None, write_result = (\<lambda>r. Some (int (length r))),
        read_result = (\<lambda>n. Some []), expired = (\<lambda>t n. 3 \<le> n)\<rparr>
       \<lparr>device = Some Hid, connected = True, device_info = None,
        on_status_change = None, io_log = []\<rparr> 1000
     = Some ((False, []),
             \<lparr>device = Some Hid, connected = True, device_info = None,
              on_status_change = None, io_log = [DevRead, DevRead, DevRead]\<rparr>)"
proof -
  define env where "env = \<lparr>close_error = None, write_result = (\<lambda>r. Some (int (length r))),
        read_result = (\<lambda>n. if n = 0 then Some [] else Some [ESC, CHR ''0'', CHR 0x00, CHR 0x00]),
        expired = (\<lambda>t n. False)\<rparr>"
  define env2 where "env2 = \<lparr>close_error = None, write_result = (\<lambda>r. Some (int (length r))),
        read_result = (\<lambda>n. Some []), expired = (\<lambda>t n. 3 \<le> n)\<rparr>"
  define s0 where "s0 = \<lparr>device = Some Hid, connected = True, device_info = (None :: DeviceInfo option),
        on_status_change = None, io_log = []\<rparr>"
  have h: "is_connected s0" by (simp add: is_connected_def s0_def)
  have r2: "reads_upto env (Suc (Suc 0)) = [ESC, CHR ''0'', CHR 0x00, CHR 0x00]"
    by (simp add: reads_upto_Suc reads_upto_0 env_def)
  have kp: "keeps_polling env 1000 0" by (simp add: keeps_polling_def env_def)
  then have k1: "\<forall>i<Suc 0. keeps_polling env 1000 i" by simp
  have c: "response_complete [ESC, CHR ''0'', CHR 0x00, CHR 0x00]"
    by (simp add: response_complete_def bytes_find_def)
  have x: "\<not> expired env 1000 (Suc 0) \<and> read_result env (Suc 0) \<noteq> None
            \<and> read_result env (Suc 0) \<noteq> Some [] \<and> response_complete (reads_upto env (Suc (Suc 0)))"
    unfolding r2 using c by (simp add: env_def)
  from mp[OF receive_response_exit[OF h k1, THEN conjunct2, THEN conjunct2] x]
  have a: "receive_response env s0 1000 = Some ((True, [ESC, CHR ''0'']), log_reads (Suc (Suc 0)) s0)"
    unfolding r2 by (simp add: rstrip_zeros_def ESC_def)
  have rn: "reads_upto env2 n = []" for n
    by (induction n) (simp_all add: reads_upto_Suc reads_upto_0 env2_def)
  have k3: "\<forall>i<3. keeps_polling env2 1000 i" by (simp add: keeps_polling_def env2_def)
  have e3: "expired env2 1000 3" by (simp add: env2_def)
  from mp[OF receive_response_exit[OF h k3, THEN conjunct1] e3]
  have b: "receive_response env2 s0 1000 = Some ((False, []), log_reads 3 s0)"
    unfolding rn by (simp add: rstrip_zeros_def)
  have l2: "log_reads (Suc (Suc 0)) s0 = s0\<lparr>io_log := [DevRead, DevRead]\<rparr>"
    by (simp add: log_reads_def s0_def)
  have l3: "log_reads 3 s0 = s0\<lparr>io_log := [DevRead, DevRead, DevRead]\<rparr>"
    by (simp add: log_reads_def s0_def numeral_eq_Suc)
  from h kp a b show ?thesis
    unfolding l2 l3 unfolding env_def env2_def s0_def by simp
qed

text \<open>
  The claim as stated fails. Bytes without a sentinel followed by the timeout are returned
  as a success, not as a timeout; and a buffer of the single byte \<open>FS\<close> does not end the
  loop (a second read follows), because the test needs two bytes.
\<close>

theorem receive_timeout_counterexample:
  "receive_response \<lparr>close_error = None, write_result = (\<lambda>r. Some (int (length r))),
        read_result = (\<lambda>n. if n = 0 then Some [CHR ''A'', CHR ''B'', CHR 0x00] else Some []),
        expired = (\<lambda>t n. 2 \<le> n)\<rparr>
       \<lparr>device = Some Hid, connected = True, device_info = None,
        on_status_change = None, io_log = []\<rparr> 1000
     = Some ((True, [CHR ''A'', CHR ''B'']),
             \<lparr>device = Some Hid, connected = True, device_info = None,
              on_status_change = None, io_log = [DevRead, DevRead]\<rparr>)
   \<and> \<not> response_complete [CHR ''A'', CHR ''B'', CHR 0x00]
   \<and> receive_response \<lparr>close_error = None, write_result = (\<lambda>r. Some (int (length r))),
        read_result = (\<lambda>n. if n = 0 then Some [FS] else Some []),
        expired = (\<lambda>t n. 2 \<le> n)\<rparr>
       \<lparr>device = Some Hid, connected = True, device_info = None,
        on_status_change = None, io_log = []\<rparr> 1000
     = Some ((True, [FS]),
             \<lparr>device = Some Hid, connected = True, device_info = None,
              on_status_change = None, io_log = [DevRead, DevRead]\<rparr>)
   \<and> bytes_find [FS] [FS] 0 = Some 0"
proof (intro conjI)
  define s0 where "s0 = \<lparr>device = Some Hid, connected = True, device_info = (None :: DeviceInfo option),
        on_status_change = None, io_log = []\<rparr>"
  have h: "is_connected s0" by (simp add: is_connected_def s0_def)
  have l2: "log_reads 2 s0 = s0\<lparr>io_log := [DevRead, DevRead]\<rparr>"
    by (simp add: log_reads_def s0_def numeral_eq_Suc)
  show n: "\<not> response_complete [CHR ''A'', CHR ''B'', CHR 0x00]"
    by (simp add: response_complete_def bytes_find_def ESC_def FS_def)
  show "bytes_find [FS] [FS] 0 = Some 0" by (simp add: bytes_find_def)
  define env where "env = \<lparr>close_error = None, write_result = (\<lambda>r. Some (int (length r))),
        read_result = (\<lambda>n. if n = 0 then Some [CHR ''A'', CHR ''B'', CHR 0x00] else Some []),
        expired = (\<lambda>t n. 2 \<le> n)\<rparr>"
  have r: "reads_upto env (Suc 0) = [CHR ''A'', CHR ''B'', CHR 0x00]"
    "reads_upto env (Suc (Suc 0)) = [CHR ''A'', CHR ''B'', CHR 0x00]"
    by (simp_all add: reads_upto_Suc reads_upto_0 env_def)
  have "keeps_polling env 1000 0" "keeps_polling env 1000 (Suc 0)"
    unfolding keeps_polling_def r using n by (simp_all add: env_def)
  then have k: "\<forall>i<Suc (Suc 0). keeps_polling env 1000 i" by (simp add: less_Suc_eq)
  have e: "expired env 1000 (Suc (Suc 0))" by (simp add: env_def)
  have "receive_response env s0 1000 = Some ((True, [CHR ''A'', CHR ''B'']), log_reads 2 s0)"
    using receive_at_expiry[OF h k e] unfolding r by (simp add: rstrip_zeros_def numeral_2_eq_2)
  then show "receive_response \<lparr>close_error = None, write_result = (\<lambda>r. Some (int (length r))),
        read_result = (\<lambda>n. if n = 0 then Some [CHR ''A'', CHR ''B'', CHR 0x00] else Some []),
        expired = (\<lambda>t n. 2 \<le> n)\<rparr>
       \<lparr>device = Some Hid, connected = True, device_info = None,
        on_status_change = None, io_log = []\<rparr> 1000
     = Some ((True, [CHR ''A'', CHR ''B'']),
             \<lparr>device = Some Hid, connected = True, device_info = None,
              on_status_change = None, io_log = [DevRead, DevRead]\<rparr>)"
    unfolding l2 unfolding env_def s0_def by simp
  define env2 where "env2 = \<lparr>close_error = None, write_result = (\<lambda>r. Some (int (length r))),
        read_result = (\<lambda>n. if n = 0 then Some [FS] else Some []),
        expired = (\<lambda>t n. 2 \<le> n)\<rparr>"
  have r': "reads_upto env2 (Suc 0) = [FS]" "reads_upto env2 (Suc (Suc 0)) = [FS]"
    by (simp_all add: reads_upto_Suc reads_upto_0 env2_def)
  have "keeps_polling env2 1000 0" "keeps_polling env2 1000 (Suc 0)"
    unfolding keeps_polling_def r' by (simp_all add: env2_def response_complete_def)
  then have k': "\<forall>i<Suc (Suc 0). keeps_polling env2 1000 i" by (simp add: less_Suc_eq)
  have e': "expired env2 1000 (Suc (Suc 0))" by (simp add: env2_def)
  have "receive_response env2 s0 1000 = Some ((True, [FS]), log_reads 2 s0)"
    using receive_at_expiry[OF h k' e'] unfolding r'
    by (simp add: rstrip_zeros_def numeral_2_eq_2 FS_def)
  then show "receive_response \<lparr>close_error = None, write_result = (\<lambda>r. Some (int (length r))),
        read_result = (\<lambda>n. if n = 0 then Some [FS] else Some []),
        expired = (\<lambda>t n. 2 \<le> n)\<rparr>
       \<lparr>device = Some Hid, connected = True, device_info = None,
        on_status_change = None, io_log = []\<rparr> 1000
     = Some ((True, [FS]),
             \<lparr>device = Some Hid, connected = True, device_info = None,
              on_status_change = None, io_log = [DevRead, DevRead]\<rparr>)"
    unfolding l2 unfolding env2_def s0_def by simp
qed

end
